theory Spec2Isabelle
  imports Complex_Main
begin

section \<open>Errors as values\<close>

text \<open>
  The analysis is Python over numpy and awkward arrays. An exception that leaves a
  function is the \<open>Inl\<close> branch of its result. \<open>FieldNotFound\<close> stands for the
  error the event container raises when a branch it is asked for does not exist.
\<close>

datatype error = ValueError | KeyError | IndexError | NotImplementedError | FieldNotFound

fun ebind :: "error + 'a \<Rightarrow> ('a \<Rightarrow> error + 'b) \<Rightarrow> error + 'b" where
  "ebind (Inl e) f = Inl e"
| "ebind (Inr x) f = f x"

text \<open>Evaluating a list of computations in order: the first exception wins.\<close>

fun all_ok :: "(error + 'a) list \<Rightarrow> error + 'a list" where
  "all_ok [] = Inr []"
| "all_ok (r # rs) = ebind r (\<lambda>x. ebind (all_ok rs) (\<lambda>xs. Inr (x # xs)))"

section \<open>Data model\<close>

text \<open>
  Floating-point values are modelled as reals. An object with a four-momentum carries
  \<open>pt\<close>, \<open>eta\<close>, \<open>phi\<close> and \<open>mass\<close>; a jet carries in addition its b-tag score
  and its quark-gluon likelihood. A jagged (awkward) array is a list of lists: one
  inner list per event.
\<close>

record p4 =
  pt :: real
  eta :: real
  phi :: real
  mass :: real

record jet = p4 +
  btagCSVV2 :: real
  qgl :: real

definition p4_of :: "'a p4_scheme \<Rightarrow> p4" where
  "p4_of x = \<lparr>pt = pt x, eta = eta x, phi = phi x, mass = mass x\<rparr>"

text \<open>
  The vector library (addition of four-momenta, and the mass and transverse momentum of
  a sum) is not part of the repository: it is a parameter. \<open>vec\<close> reads a
  (pt, eta, phi, mass) object as a vector of the library.
\<close>

record 'v veclib =
  vec :: "p4 \<Rightarrow> 'v"
  vadd :: "'v \<Rightarrow> 'v \<Rightarrow> 'v"
  vmass :: "'v \<Rightarrow> real"
  vpt :: "'v \<Rightarrow> real"

section \<open>Array operations\<close>

text \<open>\<open>x[mask]\<close>: the entries of \<open>x\<close> where the boolean mask holds.\<close>

definition mask_select :: "'a list \<Rightarrow> bool list \<Rightarrow> 'a list" where
  "mask_select xs m = map fst (filter snd (zip xs m))"

text \<open>\<open>ak.sum\<close> of a boolean array along the inner axis: the number of true entries.\<close>

definition count_true :: "bool list \<Rightarrow> nat" where
  "count_true bs = length (filter (\<lambda>b. b) bs)"

definition np_zeros :: "nat \<Rightarrow> nat \<Rightarrow> real list list" where
  "np_zeros n m = replicate n (replicate m 0)"

text \<open>
  \<open>ak.unflatten(xs, counts)\<close>: cuts a flat array into consecutive pieces of the given
  lengths; the lengths must add up to the length of the array.
\<close>

fun unflatten :: "'a list \<Rightarrow> nat list \<Rightarrow> error + 'a list list" where
  "unflatten xs [] = (if xs = [] then Inr [] else Inl ValueError)"
| "unflatten xs (c # cs) =
     (if c \<le> length xs
      then ebind (unflatten (drop c xs) cs) (\<lambda>r. Inr (take c xs # r))
      else Inl ValueError)"

text \<open>\<open>np.repeat(a, counts)\<close> with one count per entry of \<open>a\<close>.\<close>

definition np_repeat :: "'a list \<Rightarrow> nat list \<Rightarrow> error + 'a list" where
  "np_repeat a counts =
     (if length a = length counts then Inr (concat (map2 replicate counts a))
      else Inl ValueError)"

text \<open>
  \<open>results[mask] = vals\<close>: the mask has one entry per entry of \<open>results\<close>, and
  \<open>vals\<close> one value per true entry of the mask, written in order.
\<close>

fun scatter :: "'a list \<Rightarrow> bool list \<Rightarrow> 'a list \<Rightarrow> 'a list" where
  "scatter [] m vals = []"
| "scatter (r # rs) [] vals = r # rs"
| "scatter (r # rs) (True # m) [] = r # rs"
| "scatter (r # rs) (True # m) (v # vals) = v # scatter rs m vals"
| "scatter (r # rs) (False # m) vals = r # scatter rs m vals"

definition mask_assign :: "'a list \<Rightarrow> bool list \<Rightarrow> 'a list \<Rightarrow> error + 'a list" where
  "mask_assign results m vals =
     (if length m \<noteq> length results then Inl IndexError
      else if length vals \<noteq> count_true m then Inl ValueError
      else Inr (scatter results m vals))"

text \<open>The positions a masked assignment writes.\<close>

definition mask_indices :: "bool list \<Rightarrow> nat list" where
  "mask_indices m = filter (\<lambda>i. m ! i) [0..<length m]"

text \<open>
  \<open>ak.argmax\<close> along the inner axis: \<open>None\<close> for an empty list, otherwise the
  position of the first largest entry (a later entry replaces the best one only when it
  is strictly larger).
\<close>

fun argmax_scan :: "real list \<Rightarrow> nat \<Rightarrow> real \<Rightarrow> nat \<Rightarrow> nat" where
  "argmax_scan [] i best besti = besti"
| "argmax_scan (x # xs) i best besti =
     (if x > best then argmax_scan xs (Suc i) x i else argmax_scan xs (Suc i) best besti)"

definition ak_argmax :: "real list \<Rightarrow> nat option" where
  "ak_argmax xs = (case xs of [] \<Rightarrow> None | x # rest \<Rightarrow> Some (argmax_scan rest 1 x 0))"

section \<open>The feature extractor \<open>get_features\<close>\<close>

text \<open>
  The permutation table is a Python dict from a jet count to a list of index tuples; it
  is built by \<open>utils.get_permutations_dict\<close>, which is not among the sources, so it is
  an argument here as it is in the source. \<open>max(d.keys())\<close> raises on an empty dict,
  and \<open>d[n]\<close> raises \<open>KeyError\<close> on a missing key.
\<close>

type_synonym permutations_dict = "(nat \<times> nat list list) list"

definition max_key :: "(nat \<times> 'a) list \<Rightarrow> error + nat" where
  "max_key d = (case map fst d of [] \<Rightarrow> Inl ValueError | k # ks \<Rightarrow> Inr (fold max ks k))"

definition getitem :: "(nat \<times> 'a) list \<Rightarrow> nat \<Rightarrow> error + 'a" where
  "getitem d k = (case map_of d k of None \<Rightarrow> Inl KeyError | Some v \<Rightarrow> Inr v)"

text \<open>\<open>perms[..., k]\<close>: entry \<open>k\<close> of every index tuple.\<close>

definition perm_slot :: "nat \<Rightarrow> nat list list list \<Rightarrow> error + nat list list" where
  "perm_slot k perms =
     all_ok (map (\<lambda>ps. all_ok (map (\<lambda>p. if k < length p then Inr (p ! k) else Inl IndexError) ps)) perms)"

text \<open>\<open>jets[idx]\<close> with a jagged array of positions: per event, the jets at them.\<close>

definition jagged_take :: "'a list list \<Rightarrow> nat list list \<Rightarrow> error + 'a list list" where
  "jagged_take xss idx =
     (if length xss \<noteq> length idx then Inl ValueError
      else all_ok (map2 (\<lambda>xs ns. all_ok (map (\<lambda>n. if n < length xs then Inr (xs ! n) else Inl IndexError) ns))
                        xss idx))"

text \<open>\<open>ak.concatenate((a, b), axis=1)\<close>: event by event.\<close>

definition concatenate_axis1 :: "'a list list \<Rightarrow> 'a list list \<Rightarrow> error + 'a list list" where
  "concatenate_axis1 a b = (if length a = length b then Inr (map2 (@) a b) else Inl ValueError)"

text \<open>
  A flat array against a jagged one: entry \<open>e\<close> of the flat array meets every entry
  of list \<open>e\<close>; the two must have the same number of events.
\<close>

definition broadcast :: "'a list \<Rightarrow> 'b list list \<Rightarrow> error + ('a \<times> 'b) list list" where
  "broadcast ls xss =
     (if length ls = length xss then Inr (map2 (\<lambda>l xs. map (Pair l) xs) ls xss)
      else Inl ValueError)"

definition jmap :: "('a \<Rightarrow> 'b) \<Rightarrow> 'a list list \<Rightarrow> 'b list list" where
  "jmap f = map (map f)"

definition jzip :: "'a list list \<Rightarrow> 'b list list \<Rightarrow> ('a \<times> 'b) list list" where
  "jzip = map2 zip"

text \<open>\<open>features[:, k] = v\<close>, for the columns \<open>k\<close>, \<open>k + 1\<close>, ... in turn.\<close>

definition set_col :: "nat \<Rightarrow> real list \<Rightarrow> real list list \<Rightarrow> error + real list list" where
  "set_col k v F =
     (if length v = length F then Inr (map2 (\<lambda>row x. row[k := x]) F v) else Inl ValueError)"

fun assign_cols :: "nat \<Rightarrow> real list list \<Rightarrow> real list list \<Rightarrow> error + real list list" where
  "assign_cols k [] F = Inr F"
| "assign_cols k (c # cs) F = ebind (set_col k c F) (assign_cols (Suc k) cs)"

text \<open>
  The 28 columns, in the order of the source. \<open>LJ3\<close> pairs each event's lepton with
  the jet in the fourth role; \<open>J0\<close> to \<open>J3\<close> are the jets in the four roles.
\<close>

definition feature_columns ::
  "'v veclib \<Rightarrow> (p4 \<times> jet) list list \<Rightarrow> jet list list \<Rightarrow> jet list list \<Rightarrow> jet list list
     \<Rightarrow> jet list list \<Rightarrow> real list list" where
  "feature_columns L LJ3 J0 J1 J2 J3 =
   [ concat (jmap (\<lambda>(l, j). sqrt ((eta l - eta j)\<^sup>2 + (phi l - phi j)\<^sup>2)) LJ3),
     concat (jmap (\<lambda>(a, b). sqrt ((eta a - eta b)\<^sup>2 + (phi a - phi b)\<^sup>2)) (jzip J0 J1)),
     concat (jmap (\<lambda>(a, b). sqrt ((eta a - eta b)\<^sup>2 + (phi a - phi b)\<^sup>2)) (jzip J0 J2)),
     concat (jmap (\<lambda>(a, b). sqrt ((eta a - eta b)\<^sup>2 + (phi a - phi b)\<^sup>2)) (jzip J1 J2)),
     concat (jmap (\<lambda>(l, j). \<bar>phi l - phi j\<bar>) LJ3),
     concat (jmap (\<lambda>(a, b). \<bar>phi a - phi b\<bar>) (jzip J0 J1)),
     concat (jmap (\<lambda>(a, b). \<bar>phi a - phi b\<bar>) (jzip J0 J2)),
     concat (jmap (\<lambda>(a, b). \<bar>phi a - phi b\<bar>) (jzip J1 J2)),
     concat (jmap (\<lambda>(l, j). vmass L (vadd L (vec L l) (vec L (p4_of j)))) LJ3),
     concat (jmap (\<lambda>(a, b). vmass L (vadd L (vec L (p4_of a)) (vec L (p4_of b)))) (jzip J0 J1)),
     concat (jmap (\<lambda>(a, b, c). vmass L (vadd L (vadd L (vec L (p4_of a)) (vec L (p4_of b))) (vec L (p4_of c))))
                  (jzip J0 (jzip J1 J2))),
     concat (jmap (\<lambda>(a, b, c). vpt L (vadd L (vadd L (vec L (p4_of a)) (vec L (p4_of b))) (vec L (p4_of c))))
                  (jzip J0 (jzip J1 J2))),
     concat (jmap pt J0), concat (jmap pt J1), concat (jmap pt J2), concat (jmap pt J3),
     concat (jmap mass J0), concat (jmap mass J1), concat (jmap mass J2), concat (jmap mass J3),
     concat (jmap btagCSVV2 J0), concat (jmap btagCSVV2 J1), concat (jmap btagCSVV2 J2),
     concat (jmap btagCSVV2 J3),
     concat (jmap qgl J0), concat (jmap qgl J1), concat (jmap qgl J2), concat (jmap qgl J3) ]"

text \<open>
  \<open>get_features\<close>. The jet count of an event is capped at the largest key of the
  table; \<open>f32\<close> is the rounding of \<open>astype(np.float32)\<close>. The exceptions come in the
  order of the source: the table lookups, the concatenation of the leptons, then
  column 0 (which indexes role 3 and broadcasts the leptons), then the other roles.
\<close>

definition get_features ::
  "'v veclib \<Rightarrow> (real \<Rightarrow> real) \<Rightarrow> jet list list \<Rightarrow> p4 list list \<Rightarrow> p4 list list
     \<Rightarrow> permutations_dict \<Rightarrow> error + (real list list \<times> nat list)" where
  "get_features L f32 jets electrons muons permutations_dict =
     ebind (max_key permutations_dict) (\<lambda>maxk.
     ebind (all_ok (map (\<lambda>n. getitem permutations_dict (if n > maxk then maxk else n))
                        (map length jets))) (\<lambda>perms.
     let perm_counts = map length perms;
         features = np_zeros (sum_list perm_counts) 28 in
     ebind (concatenate_axis1 electrons muons) (\<lambda>lepton_lists.
     let leptons = concat lepton_lists in
     ebind (perm_slot 3 perms) (\<lambda>i3. ebind (jagged_take jets i3) (\<lambda>J3.
     ebind (broadcast leptons J3) (\<lambda>LJ3.
     ebind (perm_slot 0 perms) (\<lambda>i0. ebind (jagged_take jets i0) (\<lambda>J0.
     ebind (perm_slot 1 perms) (\<lambda>i1. ebind (jagged_take jets i1) (\<lambda>J1.
     ebind (perm_slot 2 perms) (\<lambda>i2. ebind (jagged_take jets i2) (\<lambda>J2.
     ebind (assign_cols 0 (feature_columns L LJ3 J0 J1 J2 J3) features) (\<lambda>features.
     Inr (map (map f32) features, perm_counts))))))))))))))"

section \<open>Event selection in \<open>TtbarAnalysis.process\<close>\<close>

text \<open>
  An event of the batch: its jets, electrons and muons, its event number, and the
  column \<open>pt_res_up\<close> that \<open>process\<close> attaches (one random factor per jet, from
  \<open>jet_pt_resolution\<close>). The columns \<open>pt_nominal\<close> and \<open>pt_scale_up\<close> hold the
  constants 1.0 and 1.03 for every event.
\<close>

record nanoevent =
  Jet :: "jet list"
  Electron :: "p4 list"
  Muon :: "p4 list"
  event :: nat
  pt_res_up_col :: "real list"

datatype pt_var = pt_nominal | pt_scale_up | pt_res_up

fun pt_var_name :: "pt_var \<Rightarrow> string" where
  "pt_var_name pt_nominal = ''pt_nominal''"
| "pt_var_name pt_scale_up = ''pt_scale_up''"
| "pt_var_name pt_res_up = ''pt_res_up''"

text \<open>Python's \<open>a in b\<close> on strings.\<close>

fun str_in :: "string \<Rightarrow> string \<Rightarrow> bool" where
  "str_in a [] = (a = [])"
| "str_in a (c # cs) = (take (length a) (c # cs) = a \<or> str_in a cs)"

text \<open>
  \<open>np.random.normal(np.ones_like(pt_flat), 0.05)\<close> draws one number per jet of the
  batch; \<open>normal i\<close> is the \<open>i\<close>-th draw. The result has the shape of the jets.
\<close>

definition jet_pt_resolution :: "(nat \<Rightarrow> real) \<Rightarrow> real list list \<Rightarrow> error + real list list" where
  "jet_pt_resolution normal pts =
     (let counts = map length pts;
          pt_flat = concat pts;
          resolution_variation = map normal [0..<length pt_flat]
      in unflatten resolution_variation counts)"

text \<open>\<open>events[pt_var]\<close> for one event: a number, or one number per jet.\<close>

datatype modifier = PerEvent real | PerJet "real list"

fun events_pt :: "pt_var \<Rightarrow> nanoevent \<Rightarrow> modifier" where
  "events_pt pt_nominal ev = PerEvent 1"
| "events_pt pt_scale_up ev = PerEvent (103 / 100)"
| "events_pt pt_res_up ev = PerJet (pt_res_up_col ev)"

fun times_mod :: "real list \<Rightarrow> modifier \<Rightarrow> real list" where
  "times_mod xs (PerEvent c) = map (\<lambda>x. x * c) xs"
| "times_mod xs (PerJet fs) = map2 (*) xs fs"

text \<open>
  \<open>events[pt_var][jet_filter]\<close>; the source applies it only to \<open>pt_res_up\<close>, the
  one per-jet column.
\<close>

fun mod_select :: "modifier \<Rightarrow> bool list \<Rightarrow> modifier" where
  "mod_select (PerJet fs) m = PerJet (mask_select fs m)"
| "mod_select (PerEvent c) m = PerEvent c"

definition B_TAG_THRESHOLD :: real where
  "B_TAG_THRESHOLD = 1 / 2"

definition selected_electrons :: "nanoevent \<Rightarrow> p4 list" where
  "selected_electrons ev = mask_select (Electron ev) (map (\<lambda>e. pt e > 25) (Electron ev))"

definition selected_muons :: "nanoevent \<Rightarrow> p4 list" where
  "selected_muons ev = mask_select (Muon ev) (map (\<lambda>m. pt m > 25) (Muon ev))"

definition jet_filter :: "pt_var \<Rightarrow> nanoevent \<Rightarrow> bool list" where
  "jet_filter pv ev = map (\<lambda>x. x > 25) (times_mod (map pt (Jet ev)) (events_pt pv ev))"

definition selected_jets :: "pt_var \<Rightarrow> nanoevent \<Rightarrow> jet list" where
  "selected_jets pv ev = mask_select (Jet ev) (jet_filter pv ev)"

definition even_ev :: "nanoevent \<Rightarrow> bool" where
  "even_ev ev = (event ev mod 2 = 0)"

text \<open>The factor of each jet: \<open>events[pt_var]\<close> spread over the jets of the event.\<close>

definition pt_factors :: "pt_var \<Rightarrow> nanoevent \<Rightarrow> real list" where
  "pt_factors pv ev =
     (case events_pt pv ev of PerEvent c \<Rightarrow> replicate (length (Jet ev)) c | PerJet fs \<Rightarrow> fs)"

definition pt_var_modifier :: "pt_var \<Rightarrow> nanoevent \<Rightarrow> modifier" where
  "pt_var_modifier pv ev =
     (if \<not> str_in ''res'' (pt_var_name pv) then events_pt pv ev
      else mod_select (events_pt pv ev) (jet_filter pv ev))"

text \<open>The selection mask of one event: one lepton, four jets, one b-tag.\<close>

definition event_filters :: "pt_var \<Rightarrow> nanoevent \<Rightarrow> bool" where
  "event_filters pv ev =
     (let event_filters1 =
            (length (map pt (selected_electrons ev)) + length (map pt (selected_muons ev)) = 1);
          event_filters2 = (event_filters1 \<and>
            length (times_mod (map pt (selected_jets pv ev)) (pt_var_modifier pv ev)) \<ge> 4)
      in event_filters2 \<and>
         count_true (map (\<lambda>j. btagCSVV2 j \<ge> B_TAG_THRESHOLD) (selected_jets pv ev)) \<ge> 1)"

text \<open>The batch after \<open>events[event_filters]\<close>.\<close>

definition event_mask :: "pt_var \<Rightarrow> nanoevent list \<Rightarrow> bool list" where
  "event_mask pv events = map (event_filters pv) events"

definition sel_events :: "pt_var \<Rightarrow> nanoevent list \<Rightarrow> nanoevent list" where
  "sel_events pv events = mask_select events (event_mask pv events)"

definition sel_electrons :: "pt_var \<Rightarrow> nanoevent list \<Rightarrow> p4 list list" where
  "sel_electrons pv events = mask_select (map selected_electrons events) (event_mask pv events)"

definition sel_muons :: "pt_var \<Rightarrow> nanoevent list \<Rightarrow> p4 list list" where
  "sel_muons pv events = mask_select (map selected_muons events) (event_mask pv events)"

definition sel_jets :: "pt_var \<Rightarrow> nanoevent list \<Rightarrow> jet list list" where
  "sel_jets pv events = mask_select (map (selected_jets pv) events) (event_mask pv events)"

definition sel_even :: "pt_var \<Rightarrow> nanoevent list \<Rightarrow> bool list" where
  "sel_even pv events = mask_select (map even_ev events) (event_mask pv events)"

section \<open>The two regions\<close>

datatype region = Region_4j1b | Region_4j2b

fun region_name :: "region \<Rightarrow> string" where
  "region_name Region_4j1b = ''4j1b''"
| "region_name Region_4j2b = ''4j2b''"

text \<open>The region mask over the selected events, from their selected jets.\<close>

fun region_filter :: "region \<Rightarrow> jet list list \<Rightarrow> bool list" where
  "region_filter Region_4j1b sj =
     map (\<lambda>js. count_true (map (\<lambda>j. btagCSVV2 j \<ge> B_TAG_THRESHOLD) js) = 1) sj"
| "region_filter Region_4j2b sj =
     map (\<lambda>js. count_true (map (\<lambda>j. btagCSVV2 j > B_TAG_THRESHOLD) js) \<ge> 2) sj"

text \<open>The selected events that a region keeps.\<close>

definition routed :: "pt_var \<Rightarrow> region \<Rightarrow> nanoevent list \<Rightarrow> nanoevent list" where
  "routed pv r events = mask_select (sel_events pv events) (region_filter r (sel_jets pv events))"

text \<open>
  Region 4j1b: the observable is HT, the sum of the selected jets' transverse momenta
  times the variation, and the ML observable is the same array.
\<close>

definition observables_4j1b :: "pt_var \<Rightarrow> nanoevent list \<Rightarrow> real list \<times> real list" where
  "observables_4j1b pv events =
     (let region_filter = region_filter Region_4j1b (sel_jets pv events);
          selected_jets_region = mask_select (sel_jets pv events) region_filter;
          pt_var_modifier =
            (if \<not> str_in ''res'' (pt_var_name pv)
             then map (events_pt pv) (mask_select (mask_select events (event_mask pv events)) region_filter)
             else mask_select
                    (mask_select (map (\<lambda>ev. mod_select (events_pt pv ev) (jet_filter pv ev)) events)
                                 (event_mask pv events))
                    region_filter);
          observable = map2 (\<lambda>js m. sum_list (times_mod (map pt js) m)) selected_jets_region pt_var_modifier;
          ML_observable = observable
      in (observable, ML_observable))"

section \<open>Histogram filling\<close>

text \<open>
  One call of \<open>histogram.fill\<close>, with the arguments that select the bin; the weight
  is left out. \<open>systematics\<close> are the names in \<open>events.systematics.fields\<close>.
\<close>

record ('o, 'm) fill =
  fill_observable :: 'o
  fill_ml_observable :: 'm
  fill_region :: string
  fill_process :: string
  fill_variation :: string

definition histogram_fills ::
  "pt_var \<Rightarrow> string \<Rightarrow> string \<Rightarrow> string list \<Rightarrow> region \<Rightarrow> 'o \<Rightarrow> 'm \<Rightarrow> ('o, 'm) fill list" where
  "histogram_fills pv variation process systematics r observable ML_observable =
     (let fill = (\<lambda>v. \<lparr>fill_observable = observable, fill_ml_observable = ML_observable,
                      fill_region = region_name r, fill_process = process, fill_variation = v\<rparr>)
      in if pt_var_name pv = ''pt_nominal'' then
           fill variation #
           (if variation = ''nominal'' then
              concat (map (\<lambda>weight_name. map (\<lambda>direction. fill (weight_name @ ''_'' @ direction))
                                               [''up'', ''down'']) systematics) @
              concat (map (\<lambda>weight_name. map (\<lambda>direction. fill (weight_name @ ''_'' @ direction))
                                               [''up'', ''down''])
                          [''btag_var_0'', ''btag_var_1'', ''btag_var_2'', ''btag_var_3''])
            else [])
         else if variation = ''nominal'' then [fill (pt_var_name pv)]
         else [])"

definition fills_4j1b ::
  "pt_var \<Rightarrow> string \<Rightarrow> string \<Rightarrow> string list \<Rightarrow> nanoevent list \<Rightarrow> (real list, real list) fill list" where
  "fills_4j1b pv variation process systematics events =
     (case observables_4j1b pv events of (observable, ML_observable) \<Rightarrow>
        histogram_fills pv variation process systematics Region_4j1b observable ML_observable)"

section \<open>Scoring the permutations and picking the best one\<close>

text \<open>
  The classifiers and the power transform are library objects: \<open>fit_transform\<close> maps a
  matrix to a matrix, and \<open>predict_proba\<close> gives a pair of class probabilities per
  row, of which \<open>[:, 1]\<close> keeps the second. \<open>features[mask, :]\<close> needs a mask with one
  entry per row.
\<close>

definition mask_rows :: "'a list \<Rightarrow> bool list \<Rightarrow> error + 'a list" where
  "mask_rows xs m = (if length m = length xs then Inr (mask_select xs m) else Inl IndexError)"

definition score_xgboost ::
  "(real list list \<Rightarrow> real list list) \<Rightarrow> (real list list \<Rightarrow> (real \<times> real) list)
     \<Rightarrow> (real list list \<Rightarrow> (real \<times> real) list) \<Rightarrow> real list list \<Rightarrow> bool list \<Rightarrow> error + real list" where
  "score_xgboost fit_transform predict_proba_even predict_proba_odd features even_perm =
     (let results = replicate (length features) 0 in
      ebind (mask_rows features even_perm) (\<lambda>features_even.
      ebind (mask_assign results even_perm (map snd (predict_proba_even (fit_transform features_even))))
        (\<lambda>results.
      ebind (mask_rows features (map Not even_perm)) (\<lambda>features_odd.
      mask_assign results (map Not even_perm)
        (map snd (predict_proba_odd (fit_transform features_odd)))))))"

definition score_region ::
  "(real list list \<Rightarrow> real list list) \<Rightarrow> (real list list \<Rightarrow> (real \<times> real) list)
     \<Rightarrow> (real list list \<Rightarrow> (real \<times> real) list) \<Rightarrow> real list list \<Rightarrow> bool list \<Rightarrow> nat list
     \<Rightarrow> error + real list" where
  "score_region fit_transform predict_proba_even predict_proba_odd features even_region perm_counts =
     ebind (np_repeat even_region perm_counts) (\<lambda>even_perm.
     score_xgboost fit_transform predict_proba_even predict_proba_odd features even_perm)"

text \<open>
  Per event, the position of the best score, and column 10 of the feature row there;
  an event without permutations has no best position and gets \<open>None\<close>.
\<close>

definition best_permutation :: "real list list \<Rightarrow> real list \<Rightarrow> nat list \<Rightarrow> error + real option list" where
  "best_permutation features results perm_counts =
     ebind (unflatten results perm_counts) (\<lambda>results_unflattened.
     let which_combination = map ak_argmax results_unflattened in
     ebind (unflatten features perm_counts) (\<lambda>features_unflattened.
     all_ok (map2 (\<lambda>rows w. case w of
                     None \<Rightarrow> Inr None
                   | Some i \<Rightarrow> if i < length rows \<and> 10 < length (rows ! i)
                              then Inr (Some (rows ! i ! 10)) else Inl IndexError)
                  features_unflattened which_combination)))"

text \<open>Region 4j2b, from the selected events to the ML observable.\<close>

definition ml_observable_4j2b ::
  "'v veclib \<Rightarrow> (real \<Rightarrow> real) \<Rightarrow> (real list list \<Rightarrow> real list list)
     \<Rightarrow> (real list list \<Rightarrow> (real \<times> real) list) \<Rightarrow> (real list list \<Rightarrow> (real \<times> real) list)
     \<Rightarrow> permutations_dict \<Rightarrow> pt_var \<Rightarrow> nanoevent list \<Rightarrow> error + real option list" where
  "ml_observable_4j2b L f32 fit_transform predict_proba_even predict_proba_odd permutations_dict pv events =
     (let region_filter = region_filter Region_4j2b (sel_jets pv events);
          selected_jets_region = mask_select (sel_jets pv events) region_filter;
          selected_electrons_region = mask_select (sel_electrons pv events) region_filter;
          selected_muons_region = mask_select (sel_muons pv events) region_filter;
          even_region = mask_select (sel_even pv events) region_filter
      in ebind (get_features L f32 selected_jets_region selected_electrons_region
                  selected_muons_region permutations_dict) (\<lambda>(features, perm_counts).
         ebind (score_region fit_transform predict_proba_even predict_proba_odd features
                  even_region perm_counts) (\<lambda>results.
         best_permutation features results perm_counts)))"

section \<open>The I/O-only routine \<open>only_do_IO\<close>\<close>

text \<open>
  The event container, as far as this routine reads it: the collections it has, each
  with the names of its branches. Reading a branch that is missing fails inside the
  library.
\<close>

type_synonym nano_schema = "(string \<times> string list) list"

definition branches_to_read :: "real \<Rightarrow> string list" where
  "branches_to_read io_file_percent =
     (if io_file_percent \<ge> 27 / 10 then
        [''Jet_pt'', ''Jet_eta'', ''Jet_phi'', ''Jet_btagCSVV2'', ''Jet_mass'', ''Muon_pt'',
         ''Electron_pt'']
      else []) @
     (if io_file_percent \<ge> 4 then
        [''Electron_phi'', ''Electron_eta'', ''Electron_mass'', ''Muon_phi'', ''Muon_eta'',
         ''Muon_mass'', ''Photon_pt'', ''Photon_eta'', ''Photon_mass'', ''Jet_jetId'']
      else []) @
     (if io_file_percent \<ge> 15 then
        [''Jet_nConstituents'', ''Jet_electronIdx1'', ''Jet_electronIdx2'', ''Jet_muonIdx1'',
         ''Jet_muonIdx2'', ''Jet_chHEF'', ''Jet_area'', ''Jet_puId'', ''Jet_qgl'', ''Jet_btagDeepB'',
         ''Jet_btagDeepCvB'', ''Jet_btagDeepCvL'', ''Jet_btagDeepFlavB'', ''Jet_btagDeepFlavCvB'',
         ''Jet_btagDeepFlavCvL'', ''Jet_btagDeepFlavQG'', ''Jet_chEmEF'', ''Jet_chFPV0EF'',
         ''Jet_muEF'', ''Jet_muonSubtrFactor'', ''Jet_neEmEF'', ''Jet_neHEF'', ''Jet_puIdDisc'']
      else []) @
     (if io_file_percent \<ge> 25 then
        [''GenPart_pt'', ''GenPart_eta'', ''GenPart_phi'', ''GenPart_mass'',
         ''GenPart_genPartIdxMother'', ''GenPart_pdgId'', ''GenPart_status'', ''GenPart_statusFlags'']
      else []) @
     (if io_file_percent = 50 then
        [''Jet_rawFactor'', ''Jet_bRegCorr'', ''Jet_bRegRes'', ''Jet_cRegCorr'', ''Jet_cRegRes'',
         ''Jet_nElectrons'', ''Jet_nMuons'', ''GenJet_pt'', ''GenJet_eta'', ''GenJet_phi'',
         ''GenJet_mass'', ''Tau_pt'', ''Tau_eta'', ''Tau_mass'', ''Tau_phi'', ''Muon_dxy'',
         ''Muon_dxyErr'', ''Muon_dxybs'', ''Muon_dz'', ''Muon_dzErr'', ''Electron_dxy'',
         ''Electron_dxyErr'', ''Electron_dz'', ''Electron_dzErr'', ''Electron_eInvMinusPInv'',
         ''Electron_energyErr'', ''Electron_hoe'', ''Electron_ip3d'', ''Electron_jetPtRelv2'',
         ''Electron_jetRelIso'', ''Electron_miniPFRelIso_all'', ''Electron_miniPFRelIso_chg'',
         ''Electron_mvaFall17V2Iso'', ''Electron_mvaFall17V2noIso'', ''Electron_pfRelIso03_all'',
         ''Electron_pfRelIso03_chg'', ''Electron_r9'', ''Electron_scEtOverPt'', ''Electron_sieie'',
         ''Electron_sip3d'', ''Electron_mvaTTH'', ''Electron_charge'', ''Electron_cutBased'',
         ''Electron_jetIdx'', ''Electron_pdgId'', ''Electron_photonIdx'', ''Electron_tightCharge'']
      else [])"

text \<open>
  One turn of the loop: a name with an underscore is cut at the first one into the
  collection and the branch (the rest, underscores kept), otherwise it is read as a
  top-level branch.
\<close>

definition materialize :: "nano_schema \<Rightarrow> string \<Rightarrow> error + unit" where
  "materialize events branch =
     (if CHR ''_'' \<in> set branch then
        (let object_type = takeWhile (\<lambda>c. c \<noteq> CHR ''_'') branch;
             property_name = tl (dropWhile (\<lambda>c. c \<noteq> CHR ''_'') branch)
         in case map_of events object_type of
              None \<Rightarrow> Inl FieldNotFound
            | Some props \<Rightarrow> if property_name \<in> set props then Inr () else Inl FieldNotFound)
      else (case map_of events branch of None \<Rightarrow> Inl FieldNotFound | Some props \<Rightarrow> Inr ()))"

text \<open>The result \<open>{"hist": {}}\<close> is a dict with one key and an empty dict under it.\<close>

definition only_do_IO :: "real \<Rightarrow> nano_schema \<Rightarrow> error + (string \<times> (string \<times> real) list) list" where
  "only_do_IO io_file_percent events =
     (let branches = branches_to_read io_file_percent in
      if io_file_percent \<notin> set [27 / 10, 4, 15, 25, 50] then Inl NotImplementedError
      else ebind (all_ok (map (materialize events) branches)) (\<lambda>done_all. Inr [(''hist'', [])]))"

section \<open>The feature matrix, pair by pair\<close>

text \<open>
  What the claims say about \<open>get_features\<close> is stated against these definitions,
  which describe the result one (event, permutation) pair at a time: the list of index
  tuples an event gets, the condition under which its tuples index its jets, and the 28
  values of one pair.
\<close>

definition event_perms :: "permutations_dict \<Rightarrow> nat \<Rightarrow> nat list list option" where
  "event_perms d n =
     (case max_key d of Inl e \<Rightarrow> None | Inr maxk \<Rightarrow> map_of d (if n > maxk then maxk else n))"

definition valid_perm :: "nat \<Rightarrow> nat list \<Rightarrow> bool" where
  "valid_perm n p = (4 \<le> length p \<and> p ! 0 < n \<and> p ! 1 < n \<and> p ! 2 < n \<and> p ! 3 < n)"

definition features_input_ok ::
  "jet list list \<Rightarrow> p4 list list \<Rightarrow> p4 list list \<Rightarrow> permutations_dict \<Rightarrow> bool" where
  "features_input_ok jets electrons muons d =
     (d \<noteq> [] \<and>
      list_all (\<lambda>js. case event_perms d (length js) of
                         None \<Rightarrow> False
                       | Some ps \<Rightarrow> list_all (valid_perm (length js)) ps) jets \<and>
      length electrons = length muons \<and>
      length (concat (map2 (@) electrons muons)) = length jets)"

definition feature_row :: "'v veclib \<Rightarrow> p4 \<Rightarrow> jet list \<Rightarrow> nat list \<Rightarrow> real list" where
  "feature_row L l js p =
     (let j0 = js ! (p ! 0); j1 = js ! (p ! 1); j2 = js ! (p ! 2); j3 = js ! (p ! 3);
          w = vadd L (vec L (p4_of j0)) (vec L (p4_of j1));
          top = vadd L w (vec L (p4_of j2))
      in [ sqrt ((eta l - eta j3)\<^sup>2 + (phi l - phi j3)\<^sup>2),
           sqrt ((eta j0 - eta j1)\<^sup>2 + (phi j0 - phi j1)\<^sup>2),
           sqrt ((eta j0 - eta j2)\<^sup>2 + (phi j0 - phi j2)\<^sup>2),
           sqrt ((eta j1 - eta j2)\<^sup>2 + (phi j1 - phi j2)\<^sup>2),
           \<bar>phi l - phi j3\<bar>, \<bar>phi j0 - phi j1\<bar>, \<bar>phi j0 - phi j2\<bar>, \<bar>phi j1 - phi j2\<bar>,
           vmass L (vadd L (vec L l) (vec L (p4_of j3))), vmass L w, vmass L top, vpt L top,
           pt j0, pt j1, pt j2, pt j3, mass j0, mass j1, mass j2, mass j3,
           btagCSVV2 j0, btagCSVV2 j1, btagCSVV2 j2, btagCSVV2 j3,
           qgl j0, qgl j1, qgl j2, qgl j3 ])"

text \<open>The rows of one event, and of the batch in (event, permutation) order.\<close>

definition event_rows ::
  "'v veclib \<Rightarrow> (real \<Rightarrow> real) \<Rightarrow> p4 \<Rightarrow> jet list \<Rightarrow> nat list list \<Rightarrow> real list list" where
  "event_rows L f32 l js ps = map (\<lambda>p. map f32 (feature_row L l js p)) ps"

definition batch_rows ::
  "'v veclib \<Rightarrow> (real \<Rightarrow> real) \<Rightarrow> p4 list \<Rightarrow> jet list list \<Rightarrow> nat list list list
     \<Rightarrow> real list list list" where
  "batch_rows L f32 leptons jets perms =
     map (\<lambda>(l, js, ps). event_rows L f32 l js ps) (zip leptons (zip jets perms))"

text \<open>The index tuples of every event of the batch, as the table gives them.\<close>

definition table_perms :: "permutations_dict \<Rightarrow> jet list list \<Rightarrow> nat list list list" where
  "table_perms d jets = map (\<lambda>js. the (event_perms d (length js))) jets"

text \<open>
  Every (lepton, jets, index tuple) of the batch, event by event: the pairs the rows
  stand for.
\<close>

definition triples :: "'l list \<Rightarrow> 'j list list \<Rightarrow> 'p list list \<Rightarrow> ('l \<times> 'j list \<times> 'p) list list" where
  "triples leptons jets perms =
     map (\<lambda>(l, js, ps). map (\<lambda>p. (l, js, p)) ps) (zip leptons (zip jets perms))"

text \<open>
  Modelled from the spec: \<open>utils.get_permutations_dict\<close>, which builds the table, is not
  among the sources. The spec (4.1) says that, given a maximum jet count N, it returns
  for every jet count 4..N the complete list of ordered 4-tuples of distinct indices into
  the available jets.
\<close>

definition get_permutations_dict :: "nat \<Rightarrow> permutations_dict" where
  "get_permutations_dict max_n_jets =
     map (\<lambda>n. (n, [[a, b, c, e]. a \<leftarrow> [0..<n], b \<leftarrow> [0..<n], c \<leftarrow> [0..<n], e \<leftarrow> [0..<n],
                                    distinct [a, b, c, e]]))
         [4..<Suc max_n_jets]"

text \<open>A toy vector library and a small table, to instantiate the theorems.\<close>

definition toy_veclib :: "p4 veclib" where
  "toy_veclib = \<lparr>vec = (\<lambda>x. x),
                  vadd = (\<lambda>a b. \<lparr>pt = pt a + pt b, eta = 0, phi = 0, mass = mass a + mass b\<rparr>),
                  vmass = mass, vpt = pt\<rparr>"

definition small_table :: permutations_dict where
  "small_table = [(4, [[0, 1, 2, 3], [1, 0, 2, 3]]),
                  (5, [[0, 1, 2, 3], [4, 3, 2, 1], [0, 1, 3, 4]])]"


section \<open>Example inputs\<close>

text \<open>
  Two events used to instantiate the theorems below: four jets with one b-tag and an
  electron of 30 GeV, and five jets with two b-tags and a muon.
\<close>

definition mk_jet :: "real \<Rightarrow> real \<Rightarrow> real \<Rightarrow> jet" where
  "mk_jet p a b = \<lparr>pt = p, eta = 0, phi = a, mass = 0, btagCSVV2 = b, qgl = 0\<rparr>"

definition mk_lepton :: "real \<Rightarrow> real \<Rightarrow> p4" where
  "mk_lepton p a = \<lparr>pt = p, eta = 0, phi = a, mass = 0\<rparr>"

definition event_1b :: nanoevent where
  "event_1b = \<lparr>Jet = [mk_jet 30 0 (9 / 10), mk_jet 40 1 (1 / 10), mk_jet 50 2 (1 / 10),
                         mk_jet 60 3 (1 / 10)],
               Electron = [mk_lepton 30 0], Muon = [], event = 2,
               pt_res_up_col = [1, 1, 1, 1]\<rparr>"

definition event_2b :: nanoevent where
  "event_2b = \<lparr>Jet = [mk_jet 30 0 (9 / 10), mk_jet 40 1 (8 / 10), mk_jet 50 2 (1 / 10),
                         mk_jet 60 3 (1 / 10), mk_jet 70 (-3) (1 / 10)],
               Electron = [], Muon = [mk_lepton 40 3], event = 3,
               pt_res_up_col = [1, 1, 1, 1, 1]\<rparr>"

text \<open>An event container that has the standard branches.\<close>

definition standard_schema :: nano_schema where
  "standard_schema =
     [(''Jet'', [''pt'', ''eta'', ''phi'', ''btagCSVV2'', ''mass'']),
      (''Muon'', [''pt'']), (''Electron'', [''pt''])]"

text \<open>An event with more jets than the largest key of the small table.\<close>

definition event_6j :: nanoevent where
  "event_6j = \<lparr>Jet = [mk_jet 30 0 (9 / 10), mk_jet 40 1 (8 / 10), mk_jet 50 2 (1 / 10),
                         mk_jet 60 3 (1 / 10), mk_jet 70 (-3) (1 / 10), mk_jet 80 0 (1 / 10)],
               Electron = [mk_lepton 30 0], Muon = [], event = 4,
               pt_res_up_col = [1, 1, 1, 1, 1, 1]\<rparr>"

section \<open>Basic facts about results and masks\<close>

lemma ebind_Inr_iff: "ebind m f = Inr y \<longleftrightarrow> (\<exists>x. m = Inr x \<and> f x = Inr y)"
  by (cases m) auto

lemma all_ok_Inr_iff: "all_ok rs = Inr xs \<longleftrightarrow> rs = map Inr xs"
  by (induction rs arbitrary: xs) (auto simp: ebind_Inr_iff)

lemma mask_select_map: "mask_select (map f xs) m = map f (mask_select xs m)"
  unfolding mask_select_def
  by (induction xs arbitrary: m) (auto simp: zip_Cons1 split: list.splits)

lemma mask_select_pred: "mask_select xs (map P xs) = filter P xs"
  unfolding mask_select_def by (induction xs) auto

lemma mask_select_zip_pred:
  "mask_select xs (map P (zip xs ys)) = map fst (filter P (zip xs ys))"
  unfolding mask_select_def
  by (induction xs arbitrary: ys) (auto simp: zip_Cons1 split: list.splits)

lemma mask_select_zip_pred2:
  "mask_select ys (map P (zip xs ys)) = map snd (filter P (zip xs ys))"
  unfolding mask_select_def
  by (induction xs arbitrary: ys) (auto simp: zip_Cons1 split: list.splits)

lemma mask_select_subset: "set (mask_select xs m) \<subseteq> set xs"
  unfolding mask_select_def by (auto dest: set_zip_leftD)

lemma count_true_map: "count_true (map P xs) = length (filter P xs)"
  unfolding count_true_def by (induction xs) auto

lemma count_true_mono:
  "(\<And>x. x \<in> set xs \<Longrightarrow> P x \<Longrightarrow> Q x) \<Longrightarrow> count_true (map P xs) \<le> count_true (map Q xs)"
  unfolding count_true_def by (induction xs) auto

lemma count_true_ge1: "Suc 0 \<le> count_true (map P xs) \<longleftrightarrow> (\<exists>x\<in>set xs. P x)"
  by (induction xs) (auto simp: count_true_def)

lemma str_in_res: "str_in ''res'' (pt_var_name pv) \<longleftrightarrow> pv = pt_res_up"
  by (cases pv) simp_all

lemma zip_replicate_right: "zip xs (replicate (length xs) c) = map (\<lambda>x. (x, c)) xs"
  by (induction xs) auto

lemma map2_fst_snd: "map2 f (map g (map fst zs)) (map snd zs) = map (\<lambda>(a, b). f (g a) b) zs"
  by (induction zs) auto

lemmas ex_defs = mk_jet_def mk_lepton_def event_1b_def event_2b_def event_6j_def

lemmas sel_defs = sel_jets_def sel_events_def sel_electrons_def sel_muons_def sel_even_def
  event_mask_def event_filters_def selected_jets_def selected_electrons_def selected_muons_def
  jet_filter_def pt_var_modifier_def mask_select_def count_true_def B_TAG_THRESHOLD_def

section \<open>The selection\<close>

text \<open>
  The jet mask, the selected jets and the varied transverse momenta of the selected
  jets, in terms of the jets paired with their factors.
\<close>

lemma jet_filter_zip:
  "jet_filter pv ev = map (\<lambda>(j, f). pt j * f > 25) (zip (Jet ev) (pt_factors pv ev))"
  by (cases pv)
     (simp_all add: jet_filter_def pt_factors_def zip_replicate_right zip_map1 comp_def case_prod_unfold)

lemma selected_jets_zip:
  "selected_jets pv ev =
     map fst (filter (\<lambda>(j, f). pt j * f > 25) (zip (Jet ev) (pt_factors pv ev)))"
  by (simp add: selected_jets_def jet_filter_zip mask_select_zip_pred)

lemma times_mod_selected:
  "times_mod (map pt (selected_jets pv ev)) (pt_var_modifier pv ev) =
     map (\<lambda>(j, f). pt j * f)
         (filter (\<lambda>(j, f). pt j * f > 25) (zip (Jet ev) (pt_factors pv ev)))"
proof (cases pv)
  case pt_res_up
  have "pt_var_modifier pt_res_up ev =
          PerJet (map snd (filter (\<lambda>(j, f). pt j * f > 25) (zip (Jet ev) (pt_factors pt_res_up ev))))"
    by (simp add: pt_var_modifier_def jet_filter_zip) (simp add: pt_factors_def mask_select_zip_pred2)
  then show ?thesis
    unfolding pt_res_up selected_jets_zip by (simp add: map2_fst_snd del: map_map)
next
  case pt_nominal
  show ?thesis unfolding pt_nominal selected_jets_zip
    by (simp add: pt_var_modifier_def pt_factors_def zip_replicate_right filter_map comp_def)
next
  case pt_scale_up
  show ?thesis unfolding pt_scale_up selected_jets_zip
    by (simp add: pt_var_modifier_def pt_factors_def zip_replicate_right filter_map comp_def)
qed

lemma sel_events_filter: "sel_events pv events = filter (event_filters pv) events"
  by (simp add: sel_events_def event_mask_def mask_select_pred)

text \<open>
  Claim C1. For the events that pass the selection, the mask of region 4j1b (exactly one
  jet with a b-tag score of at least the threshold) and the mask of region 4j2b (two or
  more jets with a score strictly above it) never hold at the same position: no event
  goes to both regions.
\<close>

theorem regions_mutually_exclusive:
  "i < length (sel_jets pv events) \<Longrightarrow>
     \<not> (region_filter Region_4j1b (sel_jets pv events) ! i \<and>
        region_filter Region_4j2b (sel_jets pv events) ! i)"
proof
  let ?js = "sel_jets pv events ! i"
  assume i: "i < length (sel_jets pv events)"
  assume both: "region_filter Region_4j1b (sel_jets pv events) ! i \<and>
        region_filter Region_4j2b (sel_jets pv events) ! i"
  have "count_true (map (\<lambda>j. btagCSVV2 j > B_TAG_THRESHOLD) ?js)
        \<le> count_true (map (\<lambda>j. btagCSVV2 j \<ge> B_TAG_THRESHOLD) ?js)"
    by (rule count_true_mono) simp
  with both i show False by simp
qed

theorem regions_mutually_exclusive_witness:
  "0 < length (sel_jets pt_nominal [event_1b]) \<and>
     region_filter Region_4j1b (sel_jets pt_nominal [event_1b]) ! 0 \<and>
     \<not> region_filter Region_4j2b (sel_jets pt_nominal [event_1b]) ! 0"
  using regions_mutually_exclusive [of 0 pt_nominal "[event_1b]"]
  by (simp add: ex_defs sel_defs)

text \<open>
  Claim C2. The selection mask holds for an event exactly when it has one lepton
  (electrons and muons together) with pT above 25, at least four jets whose pT times
  the variation factor is above 25, and at least one of these selected jets with a b-tag
  score of at least 0.5. Every event that a region keeps passes this mask, so an event
  failing a condition is in neither region.
\<close>

theorem event_filters_iff:
  "(event_filters pv ev \<longleftrightarrow>
      length (filter (\<lambda>l. pt l > 25) (Electron ev @ Muon ev)) = 1 \<and>
      4 \<le> length (filter (\<lambda>(j, f). pt j * f > 25) (zip (Jet ev) (pt_factors pv ev))) \<and>
      (\<exists>j \<in> set (selected_jets pv ev). btagCSVV2 j \<ge> 1 / 2)) \<and>
   selected_jets pv ev =
     map fst (filter (\<lambda>(j, f). pt j * f > 25) (zip (Jet ev) (pt_factors pv ev))) \<and>
   set (routed pv r events) \<subseteq> {e \<in> set events. event_filters pv e}"
proof (intro conjI)
  show "event_filters pv ev \<longleftrightarrow>
      length (filter (\<lambda>l. pt l > 25) (Electron ev @ Muon ev)) = 1 \<and>
      4 \<le> length (filter (\<lambda>(j, f). pt j * f > 25) (zip (Jet ev) (pt_factors pv ev))) \<and>
      (\<exists>j \<in> set (selected_jets pv ev). btagCSVV2 j \<ge> 1 / 2)"
    unfolding event_filters_def Let_def times_mod_selected
    by (simp add: selected_electrons_def selected_muons_def mask_select_pred count_true_ge1
        B_TAG_THRESHOLD_def)
  show "selected_jets pv ev =
     map fst (filter (\<lambda>(j, f). pt j * f > 25) (zip (Jet ev) (pt_factors pv ev)))"
    by (rule selected_jets_zip)
  have "set (routed pv r events) \<subseteq> set (sel_events pv events)"
    unfolding routed_def by (rule mask_select_subset)
  then show "set (routed pv r events) \<subseteq> {e \<in> set events. event_filters pv e}"
    by (auto simp: sel_events_filter)
qed

theorem event_filters_iff_witness:
  "(event_filters pt_scale_up event_1b \<longleftrightarrow>
      length (filter (\<lambda>l. pt l > 25) (Electron event_1b @ Muon event_1b)) = 1 \<and>
      4 \<le> length (filter (\<lambda>(j, f). pt j * f > 25)
                         (zip (Jet event_1b) (pt_factors pt_scale_up event_1b))) \<and>
      (\<exists>j \<in> set (selected_jets pt_scale_up event_1b). btagCSVV2 j \<ge> 1 / 2)) \<and>
   event_filters pt_scale_up event_1b \<and>
   routed pt_scale_up Region_4j1b [event_1b, event_2b] = [event_1b] \<and>
   routed pt_scale_up Region_4j2b [event_1b, event_2b] = [event_2b]"
  using event_filters_iff [of pt_scale_up event_1b Region_4j1b "[event_1b, event_2b]"]
  by (simp add: routed_def ex_defs sel_defs)


section \<open>Region 4j1b\<close>

lemma map2_map_map: "map2 h (map f xs) (map g xs) = map (\<lambda>x. h (f x) (g x)) xs"
  by (induction xs) auto

lemma sel_jets_map: "sel_jets pv events = map (selected_jets pv) (sel_events pv events)"
  by (simp add: sel_jets_def sel_events_def mask_select_map)

lemma observables_4j1b_eq:
  "observables_4j1b pv events =
     (let ht = map (\<lambda>ev. sum_list (map (\<lambda>(j, f). pt j * f)
                 (filter (\<lambda>(j, f). pt j * f > 25) (zip (Jet ev) (pt_factors pv ev)))))
               (routed pv Region_4j1b events)
      in (ht, ht))"
proof -
  let ?rf = "region_filter Region_4j1b (sel_jets pv events)"
  have sj: "mask_select (sel_jets pv events) ?rf = map (selected_jets pv) (routed pv Region_4j1b events)"
    unfolding routed_def by (simp add: sel_jets_map mask_select_map)
  have md: "(if \<not> str_in ''res'' (pt_var_name pv)
             then map (events_pt pv) (mask_select (mask_select events (event_mask pv events)) ?rf)
             else mask_select
                    (mask_select (map (\<lambda>ev. mod_select (events_pt pv ev) (jet_filter pv ev)) events)
                                 (event_mask pv events)) ?rf)
        = map (pt_var_modifier pv) (routed pv Region_4j1b events)"
    unfolding routed_def sel_events_def
    by (simp add: mask_select_map pt_var_modifier_def)
  show ?thesis
    unfolding observables_4j1b_def Let_def sj md
    by (simp add: map2_map_map times_mod_selected del: region_filter.simps)
qed

text \<open>
  Claim C10. Every fill of region 4j1b passes the same array on the observable axis and
  on the ML-observable axis: HT, the sum over the selected jets of an event of pT times
  the variation factor, for each event the region keeps.
\<close>

theorem fills_4j1b_axes:
  "f \<in> set (fills_4j1b pv variation process systematics events) \<Longrightarrow>
     fill_region f = ''4j1b'' \<and>
     fill_ml_observable f = fill_observable f \<and>
     fill_observable f =
       map (\<lambda>ev. sum_list (map (\<lambda>(j, f). pt j * f)
                   (filter (\<lambda>(j, f). pt j * f > 25) (zip (Jet ev) (pt_factors pv ev)))))
           (routed pv Region_4j1b events)"
  unfolding fills_4j1b_def observables_4j1b_eq Let_def
  by (auto simp: histogram_fills_def Let_def split: if_splits)

theorem fills_4j1b_axes_witness:
  "\<lparr>fill_observable = [180], fill_ml_observable = [180], fill_region = ''4j1b'',
     fill_process = ''ttbar'', fill_variation = ''btag_var_2_down''\<rparr>
     \<in> set (fills_4j1b pt_nominal ''nominal'' ''ttbar'' [] [event_1b, event_2b]) \<and>
   routed pt_nominal Region_4j1b [event_1b, event_2b] = [event_1b] \<and>
   sum_list (map (\<lambda>(j, f). pt j * f)
      (filter (\<lambda>(j, f). pt j * f > 25) (zip (Jet event_1b) (pt_factors pt_nominal event_1b)))) = 180"
  using fills_4j1b_axes [of "\<lparr>fill_observable = [180], fill_ml_observable = [180], fill_region = ''4j1b'',
     fill_process = ''ttbar'', fill_variation = ''btag_var_2_down''\<rparr>" pt_nominal "''nominal''" "''ttbar''" "[]"
     "[event_1b, event_2b]"]
  by (simp add: fills_4j1b_def observables_4j1b_def histogram_fills_def routed_def pt_factors_def
      Let_def ex_defs sel_defs)

section \<open>The I/O-only routine\<close>

lemma ebind_Inl_iff: "ebind m f = Inl e \<longleftrightarrow> m = Inl e \<or> (\<exists>x. m = Inr x \<and> f x = Inl e)"
  by (cases m) auto

lemma all_ok_Inl: "all_ok rs = Inl e \<Longrightarrow> Inl e \<in> set rs"
  by (induction rs) (auto simp: ebind_Inl_iff)

lemma all_ok_units: "(\<forall>r \<in> set rs. r = Inr ()) \<Longrightarrow> all_ok rs = Inr (map (\<lambda>r. ()) rs)"
  by (induction rs) auto

lemma materialize_cases: "materialize events b = Inr () \<or> materialize events b = Inl FieldNotFound"
  by (simp add: materialize_def Let_def split: option.splits)

text \<open>
  Claim C8. \<open>only_do_IO\<close> raises \<open>NotImplementedError\<close> exactly when the
  I/O percentage is not one of 2.7, 4, 15, 25 and 50. For a supported percentage it
  returns the empty histogram result once every branch it reads exists in the event
  container; the routine raises nothing else itself, and the only other failure is a
  missing branch inside the library.
\<close>

theorem only_do_IO_errors:
  "(only_do_IO p events = Inl NotImplementedError \<longleftrightarrow> p \<notin> {27 / 10, 4, 15, 25, 50}) \<and>
   (p \<in> {27 / 10, 4, 15, 25, 50} \<longrightarrow>
      (\<forall>b \<in> set (branches_to_read p). materialize events b = Inr ()) \<longrightarrow>
      only_do_IO p events = Inr [(''hist'', [])]) \<and>
   (\<forall>e. only_do_IO p events = Inl e \<longrightarrow> e = NotImplementedError \<or> e = FieldNotFound)"
proof (intro conjI impI allI)
  let ?rs = "map (materialize events) (branches_to_read p)"
  have nf: "all_ok ?rs \<noteq> Inl NotImplementedError"
  proof
    assume "all_ok ?rs = Inl NotImplementedError"
    then have "Inl NotImplementedError \<in> set ?rs" by (rule all_ok_Inl)
    then obtain b where "materialize events b = Inl NotImplementedError" by auto
    then show False using materialize_cases [of events b] by simp
  qed
  show "only_do_IO p events = Inl NotImplementedError \<longleftrightarrow> p \<notin> {27 / 10, 4, 15, 25, 50}"
    using nf by (cases "all_ok ?rs") (auto simp: only_do_IO_def Let_def)
  show "only_do_IO p events = Inr [(''hist'', [])]"
    if "p \<in> {27 / 10, 4, 15, 25, 50}"
      and "\<forall>b \<in> set (branches_to_read p). materialize events b = Inr ()"
  proof -
    have "all_ok ?rs = Inr (map (\<lambda>r. ()) ?rs)"
      by (rule all_ok_units) (use that in auto)
    with that show ?thesis by (auto simp: only_do_IO_def Let_def)
  qed
  show "e = NotImplementedError \<or> e = FieldNotFound" if "only_do_IO p events = Inl e" for e
  proof (cases "p \<in> {27 / 10, 4, 15, 25, 50}")
    case False
    with that show ?thesis by (auto simp: only_do_IO_def Let_def)
  next
    case True
    with that have "all_ok ?rs = Inl e"
      by (cases "all_ok ?rs") (auto simp: only_do_IO_def Let_def)
    then have "Inl e \<in> set ?rs" by (rule all_ok_Inl)
    then obtain b where "materialize events b = Inl e" by auto
    then show ?thesis using materialize_cases [of events b] by simp
  qed
qed

theorem only_do_IO_errors_witness:
  "only_do_IO (27 / 10) standard_schema = Inr [(''hist'', [])] \<and>
   only_do_IO 3 standard_schema = Inl NotImplementedError \<and>
   only_do_IO 4 standard_schema = Inl FieldNotFound"
  using only_do_IO_errors [of "27 / 10" standard_schema] only_do_IO_errors [of 3 standard_schema]
  by (simp add: only_do_IO_def branches_to_read_def materialize_def standard_schema_def)

section \<open>What \<open>get_features\<close> returns\<close>


lemma all_ok_map_if:
  "all_ok (map (\<lambda>x. if P x then Inr (f x) else Inl e) xs) =
     (if \<forall>x\<in>set xs. P x then Inr (map f xs) else Inl e)"
  by (induction xs) auto

lemma perm_slot_eq:
  "perm_slot k perms =
     (if \<forall>ps\<in>set perms. \<forall>p\<in>set ps. k < length p then Inr (jmap (\<lambda>p. p ! k) perms)
      else Inl IndexError)"
  unfolding perm_slot_def jmap_def all_ok_map_if ..

lemma jagged_take_eq:
  "jagged_take xss idx =
     (if length xss \<noteq> length idx then Inl ValueError
      else if \<forall>x\<in>set (zip xss idx). \<forall>n\<in>set (snd x). n < length (fst x)
      then Inr (map (\<lambda>x. map (\<lambda>n. fst x ! n) (snd x)) (zip xss idx))
      else Inl IndexError)"
  unfolding jagged_take_def all_ok_map_if case_prod_unfold ..

lemma all_ok_map_Inr: "all_ok (map Inr xs) = Inr xs"
  by (induction xs) auto


lemma take_as_triples:
  "length leptons = length jets \<Longrightarrow> length jets = length perms \<Longrightarrow>
   map (\<lambda>x. map (\<lambda>n. fst x ! n) (snd x)) (zip jets (jmap (\<lambda>p. p ! k) perms)) =
     jmap (\<lambda>(l, js, p). js ! (p ! k)) (triples leptons jets perms)"
  by (induction leptons jets perms rule: list_induct3) (auto simp: jmap_def triples_def)

lemma broadcast_triples:
  "length leptons = length jets \<Longrightarrow> length jets = length perms \<Longrightarrow>
   broadcast leptons (jmap f (triples leptons jets perms)) =
     Inr (jmap (\<lambda>x. (fst x, f x)) (triples leptons jets perms))"
  unfolding broadcast_def
  by (induction leptons jets perms rule: list_induct3) (auto simp: jmap_def triples_def)

lemma jzip_jmap: "jzip (jmap f T) (jmap g T) = jmap (\<lambda>x. (f x, g x)) T"
  unfolding jzip_def jmap_def by (induction T) (auto simp: zip_map1 zip_map2 zip_same_conv_map)

lemma jmap_jmap: "jmap h (jmap f T) = jmap (\<lambda>x. h (f x)) T"
  unfolding jmap_def by (simp add: comp_def)

lemma concat_jmap: "concat (jmap f T) = map f (concat T)"
  unfolding jmap_def by (simp add: map_concat)

lemma length_jmap: "length (jmap f T) = length T"
  unfolding jmap_def by simp

lemma set_col_map:
  "length v = length F \<Longrightarrow> set_col k v F = Inr (map (\<lambda>(row, x). row[k := x]) (zip F v))"
  by (simp add: set_col_def)

lemma assign_cols_rows:
  assumes "\<And>x. x \<in> set XS \<Longrightarrow> length (r x) = n"
  shows "k \<le> n \<Longrightarrow>
         assign_cols k (map (\<lambda>i. map (\<lambda>x. r x ! i) XS) [k..<n])
           (map (\<lambda>x. take k (r x) @ replicate (n - k) 0) XS) = Inr (map r XS)"
proof (induction "n - k" arbitrary: k)
  case 0
  then have "k = n" by simp
  then show ?case using assms by (simp cong: map_cong)
next
  case (Suc m)
  then have kn: "k < n" by simp
  have step: "map (\<lambda>(row, v). row[k := v])
          (zip (map (\<lambda>x. take k (r x) @ replicate (n - k) 0) XS) (map (\<lambda>x. r x ! k) XS))
        = map (\<lambda>x. take (Suc k) (r x) @ replicate (n - Suc k) 0) XS"
  proof -
    have "(take k (r x) @ replicate (n - k) 0)[k := r x ! k] =
          take (Suc k) (r x) @ replicate (n - Suc k) 0" if "x \<in> set XS" for x
    proof -
      have l: "length (r x) = n" using assms that by simp
      obtain d where d: "n - k = Suc d" using kn by (cases "n - k") auto
      then have d': "n - Suc k = d" by simp
      show ?thesis using l kn
        by (simp add: d d' list_update_append take_Suc_conv_app_nth)
    qed
    then show ?thesis
      by (simp add: zip_map1 zip_map2 zip_same_conv_map cong: map_cong)
  qed
  have "[k..<n] = k # [Suc k..<n]" using kn by (simp add: upt_conv_Cons)
  then show ?case
    using Suc.hyps(1) [of "Suc k"] Suc.hyps(2) kn
    by (simp add: set_col_map step)
qed

lemma upt_28: "[0..<28] = [0, 1, 2, 3, 4, 5, 6, 7, 8, 9, 10, 11, 12, 13, 14, 15, 16, 17, 18, 19,
    20, 21, 22, 23, 24, 25, 26, 27]"
  by (simp add: upt_conv_Cons)

lemma length_feature_row: "length (feature_row L l js p) = 28"
  by (simp add: feature_row_def Let_def)

lemma feature_columns_triples:
  "feature_columns L (jmap (\<lambda>x. (fst x, (case x of (l, js, p) \<Rightarrow> js ! (p ! 3)))) T)
     (jmap (\<lambda>(l, js, p). js ! (p ! 0)) T) (jmap (\<lambda>(l, js, p). js ! (p ! 1)) T)
     (jmap (\<lambda>(l, js, p). js ! (p ! 2)) T) (jmap (\<lambda>(l, js, p). js ! (p ! 3)) T) =
   map (\<lambda>i. map (\<lambda>x. (case x of (l, js, p) \<Rightarrow> feature_row L l js p) ! i) (concat T)) [0..<28]"
  unfolding feature_columns_def upt_28
  by (simp add: jzip_jmap jmap_jmap concat_jmap feature_row_def Let_def case_prod_unfold)


lemma max_key_Inr: "d \<noteq> [] \<Longrightarrow> \<exists>m. max_key d = Inr m"
  by (cases d) (auto simp: max_key_def)

lemma max_key_Nil: "max_key [] = Inl ValueError"
  by (simp add: max_key_def)

lemma concat_triples:
  "length leptons = length jets \<Longrightarrow> length jets = length perms \<Longrightarrow>
   map (map f32) (map (\<lambda>x. case x of (l, js, p) \<Rightarrow> feature_row L l js p)
                       (concat (triples leptons jets perms))) =
     concat (batch_rows L f32 leptons jets perms)"
  by (induction leptons jets perms rule: list_induct3)
     (auto simp: triples_def batch_rows_def event_rows_def)

lemma length_concat_triples:
  "length leptons = length jets \<Longrightarrow> length jets = length perms \<Longrightarrow>
   length (concat (triples leptons jets perms)) = sum_list (map length perms)"
  by (induction leptons jets perms rule: list_induct3) (auto simp: triples_def)

lemma get_features_ok:
  assumes ok: "features_input_ok jets electrons muons d"
  shows "get_features L f32 jets electrons muons d =
           Inr (concat (batch_rows L f32 (concat (map2 (@) electrons muons)) jets (table_perms d jets)),
                map length (table_perms d jets))"
proof -
  let ?leptons = "concat (map2 (@) electrons muons)"
  let ?perms = "table_perms d jets"
  let ?T = "triples ?leptons jets ?perms"
  from ok obtain maxk where mk: "max_key d = Inr maxk"
    using max_key_Inr by (auto simp: features_input_ok_def)
  have ev: "event_perms d n = map_of d (if n > maxk then maxk else n)" for n
    by (simp add: event_perms_def mk)
  have each: "\<exists>ps. event_perms d (length js) = Some ps \<and> list_all (valid_perm (length js)) ps"
    if "js \<in> set jets" for js
    using ok that by (auto simp: features_input_ok_def list_all_iff split: option.splits)
  have look: "map (\<lambda>n. getitem d (if n > maxk then maxk else n)) (map length jets) = map Inr ?perms"
  proof -
    have "getitem d (if length js > maxk then maxk else length js) = Inr (the (event_perms d (length js)))"
      if "js \<in> set jets" for js
      using each [OF that] by (auto simp: getitem_def ev [symmetric])
    then show ?thesis by (simp add: table_perms_def)
  qed
  have len: "length electrons = length muons" "length ?leptons = length jets"
    using ok by (auto simp: features_input_ok_def)
  have lp: "length jets = length ?perms" by (simp add: table_perms_def)
  have valid: "valid_perm (length (fst x)) p" if "x \<in> set (zip jets ?perms)" "p \<in> set (snd x)" for x p
  proof -
    from that(1) obtain i where i: "i < length jets" "x = (jets ! i, ?perms ! i)"
      by (auto simp: in_set_zip)
    then have "jets ! i \<in> set jets" by simp
    from each [OF this] i that(2) show ?thesis
      by (auto simp: table_perms_def list_all_iff)
  qed
  have slot: "\<forall>ps\<in>set ?perms. \<forall>p\<in>set ps. k < length p" if "k < 4" for k
  proof (intro ballI)
    fix ps p assume "ps \<in> set ?perms" "p \<in> set ps"
    then obtain i where "i < length ?perms" "ps = ?perms ! i" by (auto simp: in_set_conv_nth)
    then have "(jets ! i, ps) \<in> set (zip jets ?perms)" using lp by (auto simp: in_set_zip)
    from valid [OF this] \<open>p \<in> set ps\<close> have "valid_perm (length (jets ! i)) p" by simp
    then show "k < length p" using that by (simp add: valid_perm_def)
  qed
  have idx: "\<forall>x\<in>set (zip jets (jmap (\<lambda>p. p ! k) ?perms)). \<forall>n\<in>set (snd x). n < length (fst x)"
    if "k < 4" for k
  proof (intro ballI)
    fix x n assume x: "x \<in> set (zip jets (jmap (\<lambda>p. p ! k) ?perms))" and n: "n \<in> set (snd x)"
    from x obtain i where i: "i < length jets" "x = (jets ! i, map (\<lambda>p. p ! k) (?perms ! i))"
      using lp by (auto simp: in_set_zip jmap_def)
    with n obtain p where p: "p \<in> set (?perms ! i)" "n = p ! k" by auto
    have "(jets ! i, ?perms ! i) \<in> set (zip jets ?perms)" using i lp by (auto simp: in_set_zip)
    from valid [OF this] p have "valid_perm (length (jets ! i)) p" by simp
    moreover have "k = 0 \<or> k = 1 \<or> k = 2 \<or> k = 3" using that by arith
    ultimately have "p ! k < length (jets ! i)"
      by (auto simp: valid_perm_def)
    then show "n < length (fst x)" using i p by simp
  qed
  have take_k: "jagged_take jets (jmap (\<lambda>p. p ! k) ?perms) =
        Inr (jmap (\<lambda>(l, js, p). js ! (p ! k)) ?T)" if "k < 4" for k
    using idx [OF that] lp
    by (simp add: jagged_take_eq length_jmap take_as_triples [OF len(2) lp])
  have rows: "assign_cols 0
        (map (\<lambda>i. map (\<lambda>x. (case x of (l, js, p) \<Rightarrow> feature_row L l js p) ! i) (concat ?T)) [0..<28])
        (np_zeros (sum_list (map length ?perms)) 28) =
      Inr (map (\<lambda>x. case x of (l, js, p) \<Rightarrow> feature_row L l js p) (concat ?T))"
  proof -
    have z: "np_zeros (sum_list (map length ?perms)) 28 =
        map (\<lambda>x. take 0 (case x of (l, js, p) \<Rightarrow> feature_row L l js p) @ replicate (28 - 0) 0) (concat ?T)"
      using length_concat_triples [OF len(2) lp]
      by (simp add: np_zeros_def map_replicate_const)
    show ?thesis unfolding z
      by (rule assign_cols_rows) (auto simp: length_feature_row)
  qed
  have s0: "perm_slot 0 ?perms = Inr (jmap (\<lambda>p. p ! 0) ?perms)"
    using slot [of 0] unfolding perm_slot_eq by simp
  have s1: "perm_slot 1 ?perms = Inr (jmap (\<lambda>p. p ! 1) ?perms)"
    using slot [of 1] unfolding perm_slot_eq by simp
  have s2: "perm_slot 2 ?perms = Inr (jmap (\<lambda>p. p ! 2) ?perms)"
    using slot [of 2] unfolding perm_slot_eq by simp
  have s3: "perm_slot 3 ?perms = Inr (jmap (\<lambda>p. p ! 3) ?perms)"
    using slot [of 3] unfolding perm_slot_eq by simp
  have t0: "jagged_take jets (jmap (\<lambda>p. p ! 0) ?perms) = Inr (jmap (\<lambda>(l, js, p). js ! (p ! 0)) ?T)"
    by (rule take_k) simp
  have t1: "jagged_take jets (jmap (\<lambda>p. p ! 1) ?perms) = Inr (jmap (\<lambda>(l, js, p). js ! (p ! 1)) ?T)"
    by (rule take_k) simp
  have t2: "jagged_take jets (jmap (\<lambda>p. p ! 2) ?perms) = Inr (jmap (\<lambda>(l, js, p). js ! (p ! 2)) ?T)"
    by (rule take_k) simp
  have t3: "jagged_take jets (jmap (\<lambda>p. p ! 3) ?perms) = Inr (jmap (\<lambda>(l, js, p). js ! (p ! 3)) ?T)"
    by (rule take_k) simp
  have cat: "concatenate_axis1 electrons muons = Inr (map2 (@) electrons muons)"
    using len(1) by (simp add: concatenate_axis1_def)
  show ?thesis
    unfolding get_features_def
    by (simp only: mk look all_ok_map_Inr ebind.simps Let_def cat s0 s1 s2 s3 t0 t1 t2 t3
        broadcast_triples [OF len(2) lp] feature_columns_triples rows
        concat_triples [OF len(2) lp])
qed

lemma perm_slot_InrD:
  "perm_slot k perms = Inr I \<Longrightarrow>
     I = jmap (\<lambda>p. p ! k) perms \<and> (\<forall>ps\<in>set perms. \<forall>p\<in>set ps. k < length p)"
  unfolding perm_slot_eq by (auto split: if_splits)

lemma jagged_take_InrD:
  "jagged_take xss idx = Inr J \<Longrightarrow>
     length xss = length idx \<and> length J = length xss \<and>
     (\<forall>x\<in>set (zip xss idx). \<forall>n\<in>set (snd x). n < length (fst x))"
  unfolding jagged_take_eq by (auto split: if_splits)

lemma slot_bound:
  assumes s: "perm_slot k perms = Inr I" and t: "jagged_take jets I = Inr J"
    and i: "i < length jets" and p: "p \<in> set (perms ! i)"
  shows "k < length p \<and> p ! k < length (jets ! i)"
proof -
  from perm_slot_InrD [OF s] have I: "I = jmap (\<lambda>p. p ! k) perms"
    and len: "\<forall>ps\<in>set perms. \<forall>p\<in>set ps. k < length p" by auto
  from jagged_take_InrD [OF t] have l: "length jets = length I"
    and b: "\<forall>x\<in>set (zip jets I). \<forall>n\<in>set (snd x). n < length (fst x)" by auto
  have lp: "length perms = length jets" using l I by (simp add: jmap_def)
  then have "perms ! i \<in> set perms" using i by simp
  with len p have 1: "k < length p" by blast
  have "(jets ! i, I ! i) \<in> set (zip jets I)" using i l by (auto simp: in_set_zip)
  moreover have "p ! k \<in> set (I ! i)" using p i lp by (simp add: I jmap_def)
  ultimately have "p ! k < length (jets ! i)" using b by fastforce
  with 1 show ?thesis by simp
qed

lemma get_features_Inr_ok:
  assumes "get_features L f32 jets electrons muons d = Inr r"
  shows "features_input_ok jets electrons muons d"
proof -
  from assms obtain maxk perms ll i3 J3 LJ3 i0 J0 i1 J1 i2 J2 where
    mk: "max_key d = Inr maxk"
    and look: "all_ok (map (\<lambda>n. getitem d (if n > maxk then maxk else n)) (map length jets)) = Inr perms"
    and cat: "concatenate_axis1 electrons muons = Inr ll"
    and s3: "perm_slot 3 perms = Inr i3" and t3: "jagged_take jets i3 = Inr J3"
    and bc: "broadcast (concat ll) J3 = Inr LJ3"
    and s0: "perm_slot 0 perms = Inr i0" and t0: "jagged_take jets i0 = Inr J0"
    and s1: "perm_slot 1 perms = Inr i1" and t1: "jagged_take jets i1 = Inr J1"
    and s2: "perm_slot 2 perms = Inr i2" and t2: "jagged_take jets i2 = Inr J2"
    unfolding get_features_def Let_def ebind_Inr_iff by blast
  have d: "d \<noteq> []" using mk by (auto simp: max_key_def)
  have ev: "event_perms d n = map_of d (if n > maxk then maxk else n)" for n
    by (simp add: event_perms_def mk)
  from look have lk: "map (\<lambda>n. getitem d (if n > maxk then maxk else n)) (map length jets) = map Inr perms"
    by (simp only: all_ok_Inr_iff)
  then have lp: "length perms = length jets"
    by (metis length_map)
  have pi: "event_perms d (length (jets ! i)) = Some (perms ! i)" if "i < length jets" for i
  proof -
    from lk that lp have "getitem d (if length (jets ! i) > maxk then maxk else length (jets ! i)) = Inr (perms ! i)"
      by (metis (no_types, lifting) length_map nth_map)
    then show ?thesis by (auto simp: getitem_def ev split: option.splits)
  qed
  have ll: "length electrons = length muons" "ll = map2 (@) electrons muons"
    using cat by (auto simp: concatenate_axis1_def split: if_splits)
  have "length (concat ll) = length J3" using bc by (auto simp: broadcast_def split: if_splits)
  moreover have "length J3 = length jets" using jagged_take_InrD [OF t3] by simp
  ultimately have nl: "length (concat (map2 (@) electrons muons)) = length jets" using ll by simp
  have "case event_perms d (length (jets ! i)) of None \<Rightarrow> False
                       | Some ps \<Rightarrow> list_all (valid_perm (length (jets ! i))) ps"
    if i: "i < length jets" for i
  proof -
    have "valid_perm (length (jets ! i)) p" if "p \<in> set (perms ! i)" for p
      using slot_bound [OF s0 t0 i that] slot_bound [OF s1 t1 i that]
        slot_bound [OF s2 t2 i that] slot_bound [OF s3 t3 i that]
      by (simp add: valid_perm_def)
    then show ?thesis
      by (simp add: pi [OF i] list_all_iff)
  qed
  then have "list_all (\<lambda>js. case event_perms d (length js) of None \<Rightarrow> False
                       | Some ps \<Rightarrow> list_all (valid_perm (length js)) ps) jets"
    by (simp add: list_all_length)
  with d ll(1) nl show ?thesis by (simp add: features_input_ok_def)
qed

section \<open>The claims about the feature matrix\<close>


lemma length_batch_rows:
  "length leptons = length jets \<Longrightarrow> length jets = length perms \<Longrightarrow>
   length (batch_rows L f32 leptons jets perms) = length jets \<and>
   map length (batch_rows L f32 leptons jets perms) = map length perms"
  by (induction leptons jets perms rule: list_induct3) (auto simp: batch_rows_def event_rows_def)

lemma nth_batch_rows:
  "length leptons = length jets \<Longrightarrow> length jets = length perms \<Longrightarrow> e < length jets \<Longrightarrow>
   batch_rows L f32 leptons jets perms ! e = event_rows L f32 (leptons ! e) (jets ! e) (perms ! e)"
  by (simp add: batch_rows_def)

lemma segment_concat:
  "e < length xss \<Longrightarrow>
   take (length (xss ! e)) (drop (sum_list (map length (take e xss))) (concat xss)) = xss ! e"
proof (induction xss arbitrary: e)
  case Nil
  then show ?case by simp
next
  case (Cons xs xss)
  then show ?case by (cases e) auto
qed

lemma nth_concat_segment:
  assumes "e < length xss" "k < length (xss ! e)"
  shows "concat xss ! (sum_list (map length (take e xss)) + k) = xss ! e ! k"
proof -
  have "xss ! e ! k = take (length (xss ! e)) (drop (sum_list (map length (take e xss))) (concat xss)) ! k"
    using assms by (simp add: segment_concat)
  also have "\<dots> = concat xss ! (sum_list (map length (take e xss)) + k)"
  proof -
    have "sum_list (map length (take e xss)) + length (xss ! e) \<le> length (concat xss)"
      using assms(1)
    proof (induction xss arbitrary: e)
      case Nil then show ?case by simp
    next
      case (Cons xs xss) then show ?case by (cases e) (auto simp: length_concat)
    qed
    then show ?thesis using assms(2) by simp
  qed
  finally show ?thesis by simp
qed

lemma get_features_result:
  assumes "get_features L f32 jets electrons muons d = Inr (F, pc)"
  shows "features_input_ok jets electrons muons d"
    and "F = concat (batch_rows L f32 (concat (map2 (@) electrons muons)) jets (table_perms d jets))"
    and "pc = map length (table_perms d jets)"
    and "pc = map length (batch_rows L f32 (concat (map2 (@) electrons muons)) jets (table_perms d jets))"
    and "length (batch_rows L f32 (concat (map2 (@) electrons muons)) jets (table_perms d jets)) = length jets"
    and "length (concat (map2 (@) electrons muons)) = length jets"
proof -
  show ok: "features_input_ok jets electrons muons d"
    using assms by (rule get_features_Inr_ok)
  from get_features_ok [OF ok, of L f32] assms
  show F: "F = concat (batch_rows L f32 (concat (map2 (@) electrons muons)) jets (table_perms d jets))"
    and pc: "pc = map length (table_perms d jets)" by simp_all
  show nl: "length (concat (map2 (@) electrons muons)) = length jets"
    using ok by (simp add: features_input_ok_def)
  have lp: "length jets = length (table_perms d jets)" by (simp add: table_perms_def)
  from length_batch_rows [OF nl lp, of L f32] pc
  show "pc = map length (batch_rows L f32 (concat (map2 (@) electrons muons)) jets (table_perms d jets))"
    and "length (batch_rows L f32 (concat (map2 (@) electrons muons)) jets (table_perms d jets)) = length jets"
    by simp_all
qed


lemma small_table_perms:
  "table_perms small_table [Jet event_2b] = [[[0, 1, 2, 3], [4, 3, 2, 1], [0, 1, 3, 4]]]"
  by (simp add: table_perms_def event_perms_def max_key_def small_table_def ex_defs)

lemma small_table_ok: "features_input_ok [Jet event_2b] [[]] [[mk_lepton 40 3]] small_table"
  by (simp add: features_input_ok_def event_perms_def max_key_def valid_perm_def small_table_def
      ex_defs)


lemma row_at:
  assumes r: "get_features L f32 jets electrons muons d = Inr (F, pc)"
    and e: "e < length jets" and k: "k < pc ! e"
  shows "F ! (sum_list (take e pc) + k) =
           map f32 (feature_row L (concat (map2 (@) electrons muons) ! e) (jets ! e)
                      (table_perms d jets ! e ! k))"
proof -
  let ?B = "batch_rows L f32 (concat (map2 (@) electrons muons)) jets (table_perms d jets)"
  note res = get_features_result [OF r]
  have lp: "length jets = length (table_perms d jets)" by (simp add: table_perms_def)
  have eB: "e < length ?B" using res(5) e by simp
  have Be: "?B ! e = event_rows L f32 (concat (map2 (@) electrons muons) ! e) (jets ! e)
                       (table_perms d jets ! e)"
    by (rule nth_batch_rows [OF res(6) lp e])
  have kB: "k < length (?B ! e)" using k eB unfolding res(4) by simp
  then have kp: "k < length (table_perms d jets ! e)" by (simp add: Be event_rows_def)
  have "F ! (sum_list (take e pc) + k) = concat ?B ! (sum_list (map length (take e ?B)) + k)"
    unfolding res(2) [symmetric] by (subst res(4)) (simp add: take_map)
  also have "\<dots> = ?B ! e ! k" by (rule nth_concat_segment [OF eB kB])
  also have "\<dots> = map f32 (feature_row L (concat (map2 (@) electrons muons) ! e) (jets ! e)
                      (table_perms d jets ! e ! k))"
    using kp by (simp add: Be event_rows_def)
  finally show ?thesis .
qed

text \<open>
  Claim C6. In the row of permutation \<open>k\<close> of event \<open>e\<close>, columns 4 to 7 are
  the absolute differences of the two azimuthal angles, rounded to 32 bits, with no
  wrapping: lepton against the jet in role 3, then the jets in roles 0 and 1, 0 and 2,
  1 and 2.
\<close>

theorem delta_phi_plain:
  assumes "get_features L f32 jets electrons muons d = Inr (F, pc)"
    and "e < length jets" and "k < pc ! e"
  shows "(let row = F ! (sum_list (take e pc) + k);
              l = concat (map2 (@) electrons muons) ! e;
              js = jets ! e;
              p = table_perms d jets ! e ! k
          in row ! 4 = f32 \<bar>phi l - phi (js ! (p ! 3))\<bar> \<and>
             row ! 5 = f32 \<bar>phi (js ! (p ! 0)) - phi (js ! (p ! 1))\<bar> \<and>
             row ! 6 = f32 \<bar>phi (js ! (p ! 0)) - phi (js ! (p ! 2))\<bar> \<and>
             row ! 7 = f32 \<bar>phi (js ! (p ! 1)) - phi (js ! (p ! 2))\<bar>)"
  unfolding Let_def row_at [OF assms]
  by (simp add: feature_row_def Let_def)

theorem delta_phi_plain_witness:
  "\<exists>F pc. get_features toy_veclib (\<lambda>x. x) [Jet event_2b] [[]] [[mk_lepton 40 3]] small_table
            = Inr (F, pc) \<and> 2 < pc ! 0 \<and>
          F ! 2 ! 4 = 6 \<and> F ! 2 ! 5 = 1 \<and> F ! 2 ! 6 = 3 \<and> F ! 2 ! 7 = 2"
proof -
  obtain F pc where
    r: "get_features toy_veclib (\<lambda>x. x) [Jet event_2b] [[]] [[mk_lepton 40 3]] small_table = Inr (F, pc)"
    and pc: "pc = map length (table_perms small_table [Jet event_2b])"
    using get_features_ok [OF small_table_ok] by blast
  have k: "2 < pc ! 0" by (simp add: pc small_table_perms)
  have "F ! 2 ! 4 = 6 \<and> F ! 2 ! 5 = 1 \<and> F ! 2 ! 6 = 3 \<and> F ! 2 ! 7 = 2"
    using delta_phi_plain [OF r, of 0 2] k
    unfolding Let_def small_table_perms
    by (simp add: ex_defs numeral_2_eq_2)
  with r k show ?thesis by blast
qed








section \<open>Scoring the rows and picking the best permutation\<close>


lemma length_scatter: "length (scatter rs m vals) = length rs"
  by (induction rs m vals rule: scatter.induct) auto

lemma count_true_Cons: "count_true (b # m) = (if b then Suc (count_true m) else count_true m)"
  by (simp add: count_true_def)

lemma count_true_Nil: "count_true [] = 0"
  by (simp add: count_true_def)

lemma scatter_nth:
  "length m = length rs \<Longrightarrow> length vals = count_true m \<Longrightarrow> j < length rs \<Longrightarrow>
   scatter rs m vals ! j = (if m ! j then vals ! count_true (take j m) else rs ! j)"
proof (induction rs m vals arbitrary: j rule: scatter.induct)
  case (1 m vals)
  then show ?case by simp
next
  case (2 r rs vals)
  then show ?case by simp
next
  case (3 r rs m)
  then show ?case by (simp add: count_true_Cons)
next
  case (4 r rs m v vals)
  then show ?case by (cases j) (simp_all add: count_true_Cons count_true_Nil)
next
  case (5 r rs m vals)
  then show ?case by (cases j) (simp_all add: count_true_Cons count_true_Nil)
qed

lemma length_mask_select: "length m = length xs \<Longrightarrow> length (mask_select xs m) = count_true m"
proof (induction xs arbitrary: m)
  case Nil
  then show ?case by (simp add: mask_select_def count_true_def)
next
  case (Cons x xs)
  then obtain b m' where m: "m = b # m'" by (cases m) auto
  with Cons show ?case by (auto simp: mask_select_def count_true_def)
qed

lemma mask_select_Cons:
  "mask_select (x # xs) (b # m) = (if b then x # mask_select xs m else mask_select xs m)"
  by (simp add: mask_select_def)

lemma mask_select_nth:
  "length m = length xs \<Longrightarrow> j < length xs \<Longrightarrow> m ! j \<Longrightarrow>
   mask_select xs m ! count_true (take j m) = xs ! j"
proof (induction xs arbitrary: m j)
  case Nil
  then show ?case by simp
next
  case (Cons x xs)
  then obtain b m' where m: "m = b # m'" by (cases m) auto
  show ?case
  proof (cases j)
    case 0
    with Cons.prems m show ?thesis by (simp add: mask_select_Cons count_true_Nil)
  next
    case (Suc j')
    with Cons.prems m have "mask_select xs m' ! count_true (take j' m') = xs ! j'"
      by (intro Cons.IH) auto
    with Suc m show ?thesis by (simp add: mask_select_Cons count_true_Cons)
  qed
qed

lemma count_true_take_less:
  "j < length m \<Longrightarrow> m ! j \<Longrightarrow> count_true (take j m) < count_true m"
proof (induction m arbitrary: j)
  case Nil
  then show ?case by simp
next
  case (Cons b m)
  show ?case
  proof (cases j)
    case 0
    with Cons.prems show ?thesis by (simp add: count_true_Cons count_true_Nil)
  next
    case (Suc j')
    with Cons.prems have "count_true (take j' m) < count_true m" by (intro Cons.IH) auto
    with Suc show ?thesis by (simp add: count_true_Cons)
  qed
qed

lemma set_mask_indices: "set (mask_indices m) = {i. i < length m \<and> m ! i}"
  by (auto simp: mask_indices_def)

lemma distinct_mask_indices: "distinct (mask_indices m)"
  by (simp add: mask_indices_def)

lemma mask_indices_partition:
  "set (mask_indices m) \<inter> set (mask_indices (map Not m)) = {} \<and>
   set (mask_indices m) \<union> set (mask_indices (map Not m)) = {0..<length m}"
  by (auto simp: set_mask_indices)

lemma repeat_lengths:
  "length a = length counts \<Longrightarrow> map length (map2 replicate counts a) = counts"
  by (induction a counts rule: list_induct2) auto

lemma repeat_nth:
  assumes l: "length a = length counts" and e: "e < length counts" and k: "k < counts ! e"
  shows "concat (map2 replicate counts a) ! (sum_list (take e counts) + k) = a ! e"
proof -
  let ?xss = "map2 replicate counts a"
  have len: "map length ?xss = counts" by (rule repeat_lengths [OF l])
  have e': "e < length ?xss" using e l by simp
  have xe: "?xss ! e = replicate (counts ! e) (a ! e)" using e l by simp
  have k': "k < length (?xss ! e)" using k xe by simp
  have "concat ?xss ! (sum_list (map length (take e ?xss)) + k) = ?xss ! e ! k"
    by (rule nth_concat_segment [OF e' k'])
  moreover have "map length (take e ?xss) = take e counts"
    using len by (metis take_map)
  ultimately show ?thesis using k xe by simp
qed

lemma length_repeat:
  "length a = length counts \<Longrightarrow> length (concat (map2 replicate counts a)) = sum_list counts"
  by (induction a counts rule: list_induct2) auto

lemma score_xgboost_ok:
  assumes ft: "\<And>X. length (ft X) = length X"
    and pe: "\<And>X. length (pe X) = length X"
    and po: "\<And>X. length (po X) = length X"
    and lm: "length m = length features"
  shows "score_xgboost ft pe po features m =
     Inr (map (\<lambda>r. if m ! r
                    then snd (pe (ft (mask_select features m)) ! count_true (take r m))
                    else snd (po (ft (mask_select features (map Not m))) ! count_true (take r (map Not m))))
              [0..<length features])"
proof -
  let ?n = "length features"
  let ?Fe = "mask_select features m"
  let ?Fo = "mask_select features (map Not m)"
  let ?ve = "map snd (pe (ft ?Fe))"
  let ?vo = "map snd (po (ft ?Fo))"
  let ?r0 = "replicate ?n (0::real)"
  let ?r1 = "scatter ?r0 m ?ve"
  let ?r2 = "scatter ?r1 (map Not m) ?vo"
  have le: "length ?ve = count_true m"
    using length_mask_select [OF lm] by (simp add: pe ft)
  have lo: "length ?vo = count_true (map Not m)"
    using length_mask_select [of "map Not m" features] lm by (simp add: po ft)
  have a1: "mask_assign ?r0 m ?ve = Inr ?r1"
    using lm le by (simp add: mask_assign_def)
  have l1: "length ?r1 = ?n" by (simp add: length_scatter)
  have a2: "mask_assign ?r1 (map Not m) ?vo = Inr ?r2"
    using lm lo l1 by (simp add: mask_assign_def)
  have run: "score_xgboost ft pe po features m = Inr ?r2"
    unfolding score_xgboost_def Let_def
    using lm by (simp add: mask_rows_def a1 a2)
  have "?r2 = map (\<lambda>r. if m ! r
                    then snd (pe (ft ?Fe) ! count_true (take r m))
                    else snd (po (ft ?Fo) ! count_true (take r (map Not m))))
              [0..<?n]"
  proof (rule nth_equalityI)
    show "length ?r2 = length (map (\<lambda>r. if m ! r
                    then snd (pe (ft ?Fe) ! count_true (take r m))
                    else snd (po (ft ?Fo) ! count_true (take r (map Not m))))
              [0..<?n])"
      by (simp add: length_scatter)
  next
    fix j assume "j < length ?r2"
    then have j: "j < ?n" by (simp add: length_scatter)
    have s2: "?r2 ! j = (if map Not m ! j then ?vo ! count_true (take j (map Not m)) else ?r1 ! j)"
      by (rule scatter_nth) (use lm lo l1 j in simp_all)
    have s1: "?r1 ! j = (if m ! j then ?ve ! count_true (take j m) else ?r0 ! j)"
      by (rule scatter_nth) (use lm le j in simp_all)
    show "?r2 ! j = map (\<lambda>r. if m ! r
                    then snd (pe (ft ?Fe) ! count_true (take r m))
                    else snd (po (ft ?Fo) ! count_true (take r (map Not m))))
              [0..<?n] ! j"
    proof (cases "m ! j")
      case True
      have "count_true (take j m) < count_true m"
        using j lm True by (intro count_true_take_less) simp_all
      then have "count_true (take j m) < length (pe (ft ?Fe))" using le by simp
      then show ?thesis using True j lm s1 s2 by simp
    next
      case False
      have "count_true (take j (map Not m)) < count_true (map Not m)"
        using j lm False by (intro count_true_take_less) simp_all
      then have "count_true (take j (map Not m)) < length (po (ft ?Fo))" using lo by simp
      then show ?thesis using False j lm s2 by simp
    qed
  qed
  with run show ?thesis by simp
qed

lemma even_region_routed:
  "mask_select (sel_even pv events) (region_filter r (sel_jets pv events)) =
     map even_ev (routed pv r events)"
  by (simp add: sel_even_def routed_def sel_events_def mask_select_map)

text \<open>
  Claim C9. On the path that scores with the two loaded classifiers, every feature row
  is scored by exactly one of them, by the parity of the event number of its event: the
  row mask repeats each event's parity once per permutation, the rows where it holds go
  to the even model and the others to the odd model, and the two sets of positions are
  disjoint and cover every row, so each entry of the results is written once. The
  classifiers and the power transform are library objects that return one output row per
  input row.
\<close>

theorem score_region_partition:
  assumes ft: "\<And>X. length (fit_transform X) = length X"
    and pe: "\<And>X. length (predict_proba_even X) = length X"
    and po: "\<And>X. length (predict_proba_odd X) = length X"
    and lc: "length evs = length perm_counts"
    and lf: "length features = sum_list perm_counts"
  shows "\<exists>even_perm results.
      np_repeat (map even_ev evs) perm_counts = Inr even_perm \<and>
      score_region fit_transform predict_proba_even predict_proba_odd features (map even_ev evs)
        perm_counts = Inr results \<and>
      length even_perm = length features \<and> length results = length features \<and>
      (\<forall>e<length evs. \<forall>k<perm_counts ! e.
         even_perm ! (sum_list (take e perm_counts) + k) = (event (evs ! e) mod 2 = 0)) \<and>
      (\<forall>r<length features.
         if even_perm ! r
         then mask_select features even_perm ! count_true (take r even_perm) = features ! r \<and>
              results ! r = snd (predict_proba_even (fit_transform (mask_select features even_perm))
                                   ! count_true (take r even_perm))
         else mask_select features (map Not even_perm) ! count_true (take r (map Not even_perm))
                = features ! r \<and>
              results ! r = snd (predict_proba_odd (fit_transform (mask_select features (map Not even_perm)))
                                   ! count_true (take r (map Not even_perm)))) \<and>
      distinct (mask_indices even_perm) \<and> distinct (mask_indices (map Not even_perm)) \<and>
      set (mask_indices even_perm) \<inter> set (mask_indices (map Not even_perm)) = {} \<and>
      set (mask_indices even_perm) \<union> set (mask_indices (map Not even_perm)) = {0..<length features} \<and>
      mask_select (sel_even pv events) (region_filter Region_4j2b (sel_jets pv events)) =
        map even_ev (routed pv Region_4j2b events)"
proof -
  let ?a = "map even_ev evs"
  let ?m = "concat (map2 replicate perm_counts ?a)"
  let ?res = "map (\<lambda>r. if ?m ! r
                    then snd (predict_proba_even (fit_transform (mask_select features ?m))
                                ! count_true (take r ?m))
                    else snd (predict_proba_odd (fit_transform (mask_select features (map Not ?m)))
                                ! count_true (take r (map Not ?m))))
              [0..<length features]"
  have la: "length ?a = length perm_counts" using lc by simp
  have rep: "np_repeat ?a perm_counts = Inr ?m" using la by (simp add: np_repeat_def)
  have lm: "length ?m = length features" using length_repeat [OF la] lf by simp
  have sc: "score_xgboost fit_transform predict_proba_even predict_proba_odd features ?m = Inr ?res"
    by (rule score_xgboost_ok [OF ft pe po lm])
  have run: "score_region fit_transform predict_proba_even predict_proba_odd features ?a perm_counts
      = Inr ?res"
    unfolding score_region_def rep by (simp add: sc)
  have par: "\<forall>e<length evs. \<forall>k<perm_counts ! e.
         ?m ! (sum_list (take e perm_counts) + k) = (event (evs ! e) mod 2 = 0)"
  proof (intro allI impI)
    fix e k assume e: "e < length evs" and k: "k < perm_counts ! e"
    have "?m ! (sum_list (take e perm_counts) + k) = ?a ! e"
      by (rule repeat_nth [OF la _ k]) (use e lc in simp)
    then show "?m ! (sum_list (take e perm_counts) + k) = (event (evs ! e) mod 2 = 0)"
      using e by (simp add: even_ev_def)
  qed
  have rows: "\<forall>r<length features.
         if ?m ! r
         then mask_select features ?m ! count_true (take r ?m) = features ! r \<and>
              ?res ! r = snd (predict_proba_even (fit_transform (mask_select features ?m))
                                   ! count_true (take r ?m))
         else mask_select features (map Not ?m) ! count_true (take r (map Not ?m)) = features ! r \<and>
              ?res ! r = snd (predict_proba_odd (fit_transform (mask_select features (map Not ?m)))
                                   ! count_true (take r (map Not ?m)))"
  proof (intro allI impI)
    fix r assume r: "r < length features"
    show "if ?m ! r
         then mask_select features ?m ! count_true (take r ?m) = features ! r \<and>
              ?res ! r = snd (predict_proba_even (fit_transform (mask_select features ?m))
                                   ! count_true (take r ?m))
         else mask_select features (map Not ?m) ! count_true (take r (map Not ?m)) = features ! r \<and>
              ?res ! r = snd (predict_proba_odd (fit_transform (mask_select features (map Not ?m)))
                                   ! count_true (take r (map Not ?m)))"
    proof (cases "?m ! r")
      case True
      have "mask_select features ?m ! count_true (take r ?m) = features ! r"
        by (rule mask_select_nth [OF lm r True])
      with True r show ?thesis by simp
    next
      case False
      have "mask_select features (map Not ?m) ! count_true (take r (map Not ?m)) = features ! r"
        by (rule mask_select_nth) (use lm r False in simp_all)
      with False r show ?thesis by simp
    qed
  qed
  have part: "set (mask_indices ?m) \<inter> set (mask_indices (map Not ?m)) = {} \<and>
      set (mask_indices ?m) \<union> set (mask_indices (map Not ?m)) = {0..<length features}"
    using mask_indices_partition [of ?m] lm by simp
  have lres: "length ?res = length features" by simp
  from part have p1: "set (mask_indices ?m) \<inter> set (mask_indices (map Not ?m)) = {}"
    and p2: "set (mask_indices ?m) \<union> set (mask_indices (map Not ?m)) = {0..<length features}"
    by simp_all
  have "np_repeat ?a perm_counts = Inr ?m \<and>
      score_region fit_transform predict_proba_even predict_proba_odd features ?a perm_counts
        = Inr ?res \<and>
      length ?m = length features \<and> length ?res = length features \<and>
      (\<forall>e<length evs. \<forall>k<perm_counts ! e.
         ?m ! (sum_list (take e perm_counts) + k) = (event (evs ! e) mod 2 = 0)) \<and>
      (\<forall>r<length features.
         if ?m ! r
         then mask_select features ?m ! count_true (take r ?m) = features ! r \<and>
              ?res ! r = snd (predict_proba_even (fit_transform (mask_select features ?m))
                                   ! count_true (take r ?m))
         else mask_select features (map Not ?m) ! count_true (take r (map Not ?m)) = features ! r \<and>
              ?res ! r = snd (predict_proba_odd (fit_transform (mask_select features (map Not ?m)))
                                   ! count_true (take r (map Not ?m)))) \<and>
      distinct (mask_indices ?m) \<and> distinct (mask_indices (map Not ?m)) \<and>
      set (mask_indices ?m) \<inter> set (mask_indices (map Not ?m)) = {} \<and>
      set (mask_indices ?m) \<union> set (mask_indices (map Not ?m)) = {0..<length features} \<and>
      mask_select (sel_even pv events) (region_filter Region_4j2b (sel_jets pv events)) =
        map even_ev (routed pv Region_4j2b events)"
    by (intro conjI rep run lm lres par rows p1 p2 distinct_mask_indices even_region_routed)
  then show ?thesis by blast
qed

theorem score_region_partition_witness:
  "np_repeat (map even_ev [event_1b, event_2b]) [1, 2] = Inr [True, False, False] \<and>
   score_region (\<lambda>X. X) (map (\<lambda>row. (0, 1 / 4))) (map (\<lambda>row. (0, 3 / 4))) [[1], [2], [3]]
     (map even_ev [event_1b, event_2b]) [1, 2] = Inr [1 / 4, 3 / 4, 3 / 4] \<and>
   mask_indices [True, False, False] = [0] \<and>
   mask_indices (map Not [True, False, False]) = [1, 2]"
proof -
  have ev: "map even_ev [event_1b, event_2b] = [True, False]"
    by (simp add: even_ev_def ex_defs)
  have rep: "np_repeat (map even_ev [event_1b, event_2b]) [1, 2] = Inr [True, False, False]"
    unfolding ev by (simp add: np_repeat_def numeral_2_eq_2)
  have sc: "score_region (\<lambda>X. X) (map (\<lambda>row. (0, 1 / 4))) (map (\<lambda>row. (0, 3 / 4))) [[1], [2], [3]]
     (map even_ev [event_1b, event_2b]) [1, 2] = Inr [1 / 4, 3 / 4, 3 / 4]"
    unfolding score_region_def rep
    by (simp add: score_xgboost_def mask_rows_def mask_assign_def mask_select_def count_true_def)
  have ix: "mask_indices [True, False, False] = [0]"
    "mask_indices (map Not [True, False, False]) = [1, 2]"
    by (simp_all add: mask_indices_def upt_conv_Cons)
  have "\<exists>even_perm results.
      np_repeat (map even_ev [event_1b, event_2b]) [1, 2] = Inr even_perm \<and>
      score_region (\<lambda>X. X) (map (\<lambda>row. (0, 1 / 4))) (map (\<lambda>row. (0, 3 / 4))) [[1], [2], [3]]
        (map even_ev [event_1b, event_2b]) [1, 2] = Inr results \<and>
      set (mask_indices even_perm) \<inter> set (mask_indices (map Not even_perm)) = {}"
    using score_region_partition [where fit_transform = "\<lambda>X. X"
      and predict_proba_even = "map (\<lambda>row. (0, 1 / 4))" and predict_proba_odd = "map (\<lambda>row. (0, 3 / 4))"
      and evs = "[event_1b, event_2b]" and perm_counts = "[1, 2]" and features = "[[1], [2], [3]]"
      and pv = pt_nominal and events = "[]"]
    by fastforce
  with rep sc ix show ?thesis by simp
qed

lemma unflatten_concat: "unflatten (concat xss) (map length xss) = Inr xss"
  by (induction xss) auto

lemma unflatten_ok:
  "length xs = sum_list counts \<Longrightarrow>
   \<exists>segs. unflatten xs counts = Inr segs \<and> concat segs = xs \<and> map length segs = counts"
proof (induction counts arbitrary: xs)
  case Nil
  then show ?case by simp
next
  case (Cons c counts)
  then have "length (drop c xs) = sum_list counts" by simp
  from Cons.IH [OF this] obtain segs where
    "unflatten (drop c xs) counts = Inr segs" "concat segs = drop c xs" "map length segs = counts"
    by blast
  with Cons.prems show ?case by (intro exI [of _ "take c xs # segs"]) auto
qed

lemma argmax_scan_spec:
  assumes "bi < length ys" "ys ! bi = b" "\<forall>j<length ys. ys ! j \<le> b" "\<forall>j<bi. ys ! j < b"
  shows "argmax_scan xs (length ys) b bi < length (ys @ xs) \<and>
         (\<forall>j<length (ys @ xs). (ys @ xs) ! j \<le> (ys @ xs) ! argmax_scan xs (length ys) b bi) \<and>
         (\<forall>j<argmax_scan xs (length ys) b bi. (ys @ xs) ! j < (ys @ xs) ! argmax_scan xs (length ys) b bi)"
  using assms
proof (induction xs arbitrary: ys b bi)
  case Nil
  then show ?case by simp
next
  case (Cons x xs)
  show ?case
  proof (cases "x > b")
    case True
    have "argmax_scan xs (length (ys @ [x])) x (length ys) < length ((ys @ [x]) @ xs) \<and>
         (\<forall>j<length ((ys @ [x]) @ xs). ((ys @ [x]) @ xs) ! j
              \<le> ((ys @ [x]) @ xs) ! argmax_scan xs (length (ys @ [x])) x (length ys)) \<and>
         (\<forall>j<argmax_scan xs (length (ys @ [x])) x (length ys). ((ys @ [x]) @ xs) ! j
              < ((ys @ [x]) @ xs) ! argmax_scan xs (length (ys @ [x])) x (length ys))"
    proof (rule Cons.IH)
      show "length ys < length (ys @ [x])" by simp
      show "(ys @ [x]) ! length ys = x" by simp
      show "\<forall>j<length (ys @ [x]). (ys @ [x]) ! j \<le> x"
        using Cons.prems(3) True by (auto simp: nth_append less_Suc_eq intro: order_trans less_imp_le)
      show "\<forall>j<length ys. (ys @ [x]) ! j < x"
        using Cons.prems(3) True by (auto simp: nth_append intro: le_less_trans)
    qed
    with True show ?thesis by simp
  next
    case False
    have "argmax_scan xs (length (ys @ [x])) b bi < length ((ys @ [x]) @ xs) \<and>
         (\<forall>j<length ((ys @ [x]) @ xs). ((ys @ [x]) @ xs) ! j
              \<le> ((ys @ [x]) @ xs) ! argmax_scan xs (length (ys @ [x])) b bi) \<and>
         (\<forall>j<argmax_scan xs (length (ys @ [x])) b bi. ((ys @ [x]) @ xs) ! j
              < ((ys @ [x]) @ xs) ! argmax_scan xs (length (ys @ [x])) b bi)"
    proof (rule Cons.IH)
      show "bi < length (ys @ [x])" using Cons.prems(1) by simp
      show "(ys @ [x]) ! bi = b" using Cons.prems(1,2) by (simp add: nth_append)
      show "\<forall>j<length (ys @ [x]). (ys @ [x]) ! j \<le> b"
        using Cons.prems(3) False by (auto simp: nth_append less_Suc_eq)
      show "\<forall>j<bi. (ys @ [x]) ! j < b"
        using Cons.prems(1,4) by (auto simp: nth_append)
    qed
    with False show ?thesis by simp
  qed
qed

lemma ak_argmax_spec:
  "xs \<noteq> [] \<Longrightarrow>
   \<exists>i. ak_argmax xs = Some i \<and> i < length xs \<and> (\<forall>j<length xs. xs ! j \<le> xs ! i) \<and>
       (\<forall>j<i. xs ! j < xs ! i)"
proof -
  assume "xs \<noteq> []"
  then obtain x rest where xs: "xs = x # rest" by (cases xs) auto
  have "argmax_scan rest (length [x]) x 0 < length ([x] @ rest) \<and>
         (\<forall>j<length ([x] @ rest). ([x] @ rest) ! j \<le> ([x] @ rest) ! argmax_scan rest (length [x]) x 0) \<and>
         (\<forall>j<argmax_scan rest (length [x]) x 0. ([x] @ rest) ! j
              < ([x] @ rest) ! argmax_scan rest (length [x]) x 0)"
    by (rule argmax_scan_spec) simp_all
  then show ?thesis unfolding xs by (simp add: ak_argmax_def)
qed

lemma ak_argmax_Nil: "ak_argmax [] = None"
  by (simp add: ak_argmax_def)

lemma best_permutation_eval:
  assumes u: "unflatten results (map length rows) = Inr scores"
    and ls: "map length scores = map length rows"
    and wide: "\<forall>rs\<in>set rows. \<forall>row\<in>set rs. 10 < length row"
  shows "best_permutation (concat rows) results (map length rows) =
           Inr (map (\<lambda>(rs, sc). case ak_argmax sc of None \<Rightarrow> None | Some i \<Rightarrow> Some (rs ! i ! 10))
                    (zip rows scores))"
proof -
  let ?f = "\<lambda>rs w. case w of None \<Rightarrow> Inr None
                   | Some i \<Rightarrow> if i < length rs \<and> 10 < length (rs ! i)
                              then Inr (Some (rs ! i ! 10)) else Inl IndexError"
  let ?g = "\<lambda>(rs, sc). case ak_argmax sc of None \<Rightarrow> None | Some i \<Rightarrow> Some (rs ! i ! (10::nat))"
  have len: "length scores = length rows" using ls by (metis length_map)
  have "map2 ?f rows (map ak_argmax scores) = map Inr (map ?g (zip rows scores))"
  proof (rule nth_equalityI)
    show "length (map2 ?f rows (map ak_argmax scores)) = length (map Inr (map ?g (zip rows scores)))"
      by simp
  next
    fix e assume "e < length (map2 ?f rows (map ak_argmax scores))"
    then have e: "e < length rows" "e < length scores" by simp_all
    have le: "length (scores ! e) = length (rows ! e)"
      using ls e by (metis nth_map)
    have "?f (rows ! e) (ak_argmax (scores ! e)) = Inr (?g (rows ! e, scores ! e))"
    proof (cases "scores ! e = []")
      case True
      then show ?thesis by (simp add: ak_argmax_Nil)
    next
      case False
      from ak_argmax_spec [OF False] obtain i where
        i: "ak_argmax (scores ! e) = Some i" "i < length (scores ! e)" by blast
      then have "rows ! e ! i \<in> set (rows ! e)" using le by simp
      moreover have "rows ! e \<in> set rows" using e by simp
      ultimately have "10 < length (rows ! e ! i)" using wide by blast
      with i le show ?thesis by simp
    qed
    then show "map2 ?f rows (map ak_argmax scores) ! e = map Inr (map ?g (zip rows scores)) ! e"
      using e by simp
  qed
  then show ?thesis
    unfolding best_permutation_def Let_def u unflatten_concat
    by (simp only: ebind.simps all_ok_map_Inr)
qed

text \<open>
  Claim C4. For the features of \<open>get_features\<close> and one score per row, every event
  with at least one permutation gets the position of the largest score among its own
  permutations, the first such position on a tie, and its ML observable is column 10 of
  the feature row there, which is the rounded mass of the sum of the jets in roles 0, 1
  and 2; an event with one permutation gets position 0. An event without permutations
  gets no value.
\<close>

theorem best_permutation_first_max:
  assumes g: "get_features L f32 jets electrons muons d = Inr (features, perm_counts)"
    and lr: "length results = length features"
  shows "\<exists>obs scores.
      unflatten results perm_counts = Inr scores \<and> concat scores = results \<and>
      map length scores = perm_counts \<and>
      best_permutation features results perm_counts = Inr obs \<and> length obs = length jets \<and>
      (\<forall>e<length jets.
         (perm_counts ! e = 0 \<longrightarrow> obs ! e = None) \<and>
         (0 < perm_counts ! e \<longrightarrow>
            (\<exists>i<perm_counts ! e.
               ak_argmax (scores ! e) = Some i \<and>
               (\<forall>j<perm_counts ! e. scores ! e ! j \<le> scores ! e ! i) \<and>
               (\<forall>j<i. scores ! e ! j < scores ! e ! i) \<and>
               (perm_counts ! e = 1 \<longrightarrow> i = 0) \<and>
               obs ! e = Some (features ! (sum_list (take e perm_counts) + i) ! 10) \<and>
               features ! (sum_list (take e perm_counts) + i) ! 10 =
                 f32 (let js = jets ! e; p = table_perms d jets ! e ! i
                      in vmass L (vadd L (vadd L (vec L (p4_of (js ! (p ! 0))))
                                                 (vec L (p4_of (js ! (p ! 1)))))
                                         (vec L (p4_of (js ! (p ! 2)))))))))"
proof -
  let ?B = "batch_rows L f32 (concat (map2 (@) electrons muons)) jets (table_perms d jets)"
  note res = get_features_result [OF g]
  have F: "features = concat ?B" and pc: "perm_counts = map length ?B" and lB: "length ?B = length jets"
    using res by simp_all
  have "length results = sum_list perm_counts"
    using lr unfolding F pc by (simp add: length_concat)
  from unflatten_ok [OF this] obtain scores where
    u: "unflatten results perm_counts = Inr scores" and cs: "concat scores = results"
    and ls: "map length scores = perm_counts" by blast
  have wide: "\<forall>rs\<in>set ?B. \<forall>row\<in>set rs. 10 < length row"
    by (auto simp: batch_rows_def event_rows_def length_feature_row)
  let ?obs = "map (\<lambda>(rs, sc). case ak_argmax sc of None \<Rightarrow> None | Some i \<Rightarrow> Some (rs ! i ! 10))
                  (zip ?B scores)"
  have bp: "best_permutation features results perm_counts = Inr ?obs"
    unfolding F
    using best_permutation_eval [of results ?B scores] u ls wide
    unfolding pc by simp
  have lsc: "length scores = length jets" using ls pc lB by (metis length_map)
  have lo: "length ?obs = length jets" using lsc lB by simp
  have each: "(perm_counts ! e = 0 \<longrightarrow> ?obs ! e = None) \<and>
         (0 < perm_counts ! e \<longrightarrow>
            (\<exists>i<perm_counts ! e.
               ak_argmax (scores ! e) = Some i \<and>
               (\<forall>j<perm_counts ! e. scores ! e ! j \<le> scores ! e ! i) \<and>
               (\<forall>j<i. scores ! e ! j < scores ! e ! i) \<and>
               (perm_counts ! e = 1 \<longrightarrow> i = 0) \<and>
               ?obs ! e = Some (features ! (sum_list (take e perm_counts) + i) ! 10) \<and>
               features ! (sum_list (take e perm_counts) + i) ! 10 =
                 f32 (let js = jets ! e; p = table_perms d jets ! e ! i
                      in vmass L (vadd L (vadd L (vec L (p4_of (js ! (p ! 0))))
                                                 (vec L (p4_of (js ! (p ! 1)))))
                                         (vec L (p4_of (js ! (p ! 2))))))))"
    if e: "e < length jets" for e
  proof -
    have eB: "e < length ?B" and es: "e < length scores" using e lB lsc by simp_all
    have lse: "length (scores ! e) = perm_counts ! e"
      using ls es by (metis nth_map)
    have lBe: "length (?B ! e) = perm_counts ! e"
      using pc eB by simp
    have oe: "?obs ! e = (case ak_argmax (scores ! e) of None \<Rightarrow> None
                          | Some i \<Rightarrow> Some (?B ! e ! i ! 10))"
      using eB es by simp
    have zero: "?obs ! e = None" if "perm_counts ! e = 0"
      using that lse oe by (simp add: ak_argmax_Nil)
    have pos: "\<exists>i<perm_counts ! e.
               ak_argmax (scores ! e) = Some i \<and>
               (\<forall>j<perm_counts ! e. scores ! e ! j \<le> scores ! e ! i) \<and>
               (\<forall>j<i. scores ! e ! j < scores ! e ! i) \<and>
               (perm_counts ! e = 1 \<longrightarrow> i = 0) \<and>
               ?obs ! e = Some (features ! (sum_list (take e perm_counts) + i) ! 10) \<and>
               features ! (sum_list (take e perm_counts) + i) ! 10 =
                 f32 (let js = jets ! e; p = table_perms d jets ! e ! i
                      in vmass L (vadd L (vadd L (vec L (p4_of (js ! (p ! 0))))
                                                 (vec L (p4_of (js ! (p ! 1)))))
                                         (vec L (p4_of (js ! (p ! 2))))))"
      if p: "0 < perm_counts ! e"
    proof -
      have ne: "scores ! e \<noteq> []" using p lse by auto
      from ak_argmax_spec [OF ne] obtain i where
        a: "ak_argmax (scores ! e) = Some i" and i: "i < length (scores ! e)"
        and mx: "\<forall>j<length (scores ! e). scores ! e ! j \<le> scores ! e ! i"
        and fst: "\<forall>j<i. scores ! e ! j < scores ! e ! i" by blast
      have ipc: "i < perm_counts ! e" using i lse by simp
      have row: "features ! (sum_list (take e perm_counts) + i) =
           map f32 (feature_row L (concat (map2 (@) electrons muons) ! e) (jets ! e)
                      (table_perms d jets ! e ! i))"
        by (rule row_at [OF g e ipc])
      have Bei: "?B ! e ! i = features ! (sum_list (take e perm_counts) + i)"
      proof -
        have "concat ?B ! (sum_list (map length (take e ?B)) + i) = ?B ! e ! i"
          by (rule nth_concat_segment [OF eB]) (use ipc lBe in simp)
        moreover have "map length (take e ?B) = take e perm_counts"
          unfolding pc by (simp add: take_map)
        ultimately show ?thesis unfolding F by simp
      qed
      have col: "features ! (sum_list (take e perm_counts) + i) ! 10 =
                 f32 (let js = jets ! e; p = table_perms d jets ! e ! i
                      in vmass L (vadd L (vadd L (vec L (p4_of (js ! (p ! 0))))
                                                 (vec L (p4_of (js ! (p ! 1)))))
                                         (vec L (p4_of (js ! (p ! 2))))))"
        unfolding row by (simp add: feature_row_def Let_def)
      have one: "perm_counts ! e = 1 \<longrightarrow> i = 0" using ipc by simp
      have "?obs ! e = Some (features ! (sum_list (take e perm_counts) + i) ! 10)"
        using oe a Bei by simp
      with a ipc mx fst one col lse show ?thesis by auto
    qed
    from zero pos show ?thesis by blast
  qed
  have "unflatten results perm_counts = Inr scores \<and> concat scores = results \<and>
      map length scores = perm_counts \<and>
      best_permutation features results perm_counts = Inr ?obs \<and> length ?obs = length jets"
    using u cs ls bp lo by blast
  with each show ?thesis by blast
qed

theorem best_permutation_first_max_witness:
  "\<exists>features pc.
     get_features (toy_veclib\<lparr>vmass := pt\<rparr>) (\<lambda>x. x) [Jet event_2b] [[]] [[mk_lepton 40 3]] small_table
       = Inr (features, pc) \<and>
     length [1 / 4, 3 / 4, 3 / 4 :: real] = length features \<and>
     ak_argmax [1 / 4, 3 / 4, 3 / 4] = Some 1 \<and>
     best_permutation features [1 / 4, 3 / 4, 3 / 4] pc = Inr [Some 180]"
proof -
  let ?L = "toy_veclib\<lparr>vmass := pt\<rparr>"
  let ?res = "[1 / 4, 3 / 4, 3 / 4 :: real]"
  obtain features pc where
    g: "get_features ?L (\<lambda>x. x) [Jet event_2b] [[]] [[mk_lepton 40 3]] small_table = Inr (features, pc)"
    and pc: "pc = map length (table_perms small_table [Jet event_2b])"
    using get_features_ok [OF small_table_ok] by blast
  have pc3: "pc = [3]" by (simp add: pc small_table_perms)
  have "length features = sum_list pc"
    using get_features_result(2,4) [OF g] by (metis length_concat)
  then have lr: "length ?res = length features" by (simp add: pc3)
  have am: "ak_argmax ?res = Some 1" by (simp add: ak_argmax_def)
  from best_permutation_first_max [OF g lr] obtain obs scores where
    u: "unflatten ?res pc = Inr scores"
    and bp: "best_permutation features ?res pc = Inr obs"
    and lo: "length obs = length [Jet event_2b]"
    and each: "\<forall>e<length [Jet event_2b].
         (pc ! e = 0 \<longrightarrow> obs ! e = None) \<and>
         (0 < pc ! e \<longrightarrow>
            (\<exists>i<pc ! e.
               ak_argmax (scores ! e) = Some i \<and>
               (\<forall>j<pc ! e. scores ! e ! j \<le> scores ! e ! i) \<and>
               (\<forall>j<i. scores ! e ! j < scores ! e ! i) \<and>
               (pc ! e = 1 \<longrightarrow> i = 0) \<and>
               obs ! e = Some (features ! (sum_list (take e pc) + i) ! 10) \<and>
               features ! (sum_list (take e pc) + i) ! 10 =
                 (let js = [Jet event_2b] ! e; p = table_perms small_table [Jet event_2b] ! e ! i
                      in vmass ?L (vadd ?L (vadd ?L (vec ?L (p4_of (js ! (p ! 0))))
                                                 (vec ?L (p4_of (js ! (p ! 1)))))
                                         (vec ?L (p4_of (js ! (p ! 2))))))))"
    by blast
  have sc: "scores = [?res]" using u by (simp add: pc3)
  from each have "\<exists>i<pc ! 0.
               ak_argmax (scores ! 0) = Some i \<and>
               obs ! 0 = Some (features ! (sum_list (take 0 pc) + i) ! 10) \<and>
               features ! (sum_list (take 0 pc) + i) ! 10 =
                 (let js = [Jet event_2b] ! 0; p = table_perms small_table [Jet event_2b] ! 0 ! i
                      in vmass ?L (vadd ?L (vadd ?L (vec ?L (p4_of (js ! (p ! 0))))
                                                 (vec ?L (p4_of (js ! (p ! 1)))))
                                         (vec ?L (p4_of (js ! (p ! 2))))))"
    by (simp add: pc3) blast
  then have o0: "obs ! 0 = Some (features ! 1 ! 10)"
    and v: "features ! 1 ! 10 =
                 (let js = [Jet event_2b] ! 0; p = table_perms small_table [Jet event_2b] ! 0 ! 1
                      in vmass ?L (vadd ?L (vadd ?L (vec ?L (p4_of (js ! (p ! 0))))
                                                 (vec ?L (p4_of (js ! (p ! 1)))))
                                         (vec ?L (p4_of (js ! (p ! 2))))))"
    unfolding sc by (auto simp: am)
  have "features ! 1 ! 10 = 180"
    unfolding v small_table_perms by (simp add: toy_veclib_def p4_of_def ex_defs)
  with o0 have "obs ! 0 = Some 180" by simp
  moreover have "length obs = 1" using lo by simp
  ultimately have "obs = [Some 180]" by (cases obs) auto
  with g lr am bp show ?thesis by blast
qed

section \<open>What the selection hands to the feature extractor\<close>


text \<open>
  The random factors of \<open>pt_res_up\<close> always come back in the shape of the jets, so the
  per-jet column of an event has one factor per jet.
\<close>

lemma jet_pt_resolution_shape:
  "\<exists>r. jet_pt_resolution normal pts = Inr r \<and> map length r = map length pts"
proof -
  have "length (map normal [0..<length (concat pts)]) = sum_list (map length pts)"
    by (simp add: length_concat)
  from unflatten_ok [OF this] show ?thesis
    unfolding jet_pt_resolution_def Let_def by blast
qed

text \<open>
  The events of a region have passed the selection, so each brings exactly one selected
  lepton and at least four selected jets: the flat lepton array that \<open>get_features\<close>
  builds has one entry per event.
\<close>

lemma routed_selected: "ev \<in> set (routed pv r events) \<Longrightarrow> event_filters pv ev"
  using mask_select_subset [of "sel_events pv events" "region_filter r (sel_jets pv events)"]
  by (auto simp: routed_def sel_events_filter)

lemma region_arrays:
  "mask_select (sel_jets pv events) (region_filter r (sel_jets pv events)) =
     map (selected_jets pv) (routed pv r events)"
  "mask_select (sel_electrons pv events) (region_filter r (sel_jets pv events)) =
     map selected_electrons (routed pv r events)"
  "mask_select (sel_muons pv events) (region_filter r (sel_jets pv events)) =
     map selected_muons (routed pv r events)"
  by (simp_all add: sel_jets_def sel_electrons_def sel_muons_def routed_def sel_events_def
      mask_select_map)

lemma routed_leptons:
  "length (concat (map2 (@) (map selected_electrons (routed pv r events))
                            (map selected_muons (routed pv r events)))) =
     length (routed pv r events)"
proof -
  have one: "length (selected_electrons ev) + length (selected_muons ev) = 1"
    if "ev \<in> set (routed pv r events)" for ev
    using routed_selected [OF that] by (simp add: event_filters_def Let_def)
  have "length (concat (map2 (@) (map selected_electrons evs) (map selected_muons evs))) = length evs"
    if "\<And>ev. ev \<in> set evs \<Longrightarrow> length (selected_electrons ev) + length (selected_muons ev) = 1"
    for evs
    using that by (induction evs) auto
  from this [OF one] show ?thesis by simp
qed

lemma routed_four_jets:
  "ev \<in> set (routed pv r events) \<Longrightarrow> 4 \<le> length (selected_jets pv ev)"
proof -
  assume "ev \<in> set (routed pv r events)"
  then have "event_filters pv ev" by (rule routed_selected)
  then have "4 \<le> length (times_mod (map pt (selected_jets pv ev)) (pt_var_modifier pv ev))"
    by (simp add: event_filters_def Let_def)
  then show ?thesis
    unfolding times_mod_selected by (simp add: selected_jets_zip)
qed

end
